theory Spec2Isabelle
  imports Complex_Main "HOL-Library.Sublist" "HOL-Library.Multiset"
    "HOL-Library.Product_Lexorder" "HOL-Library.Char_ord"
begin

section \<open>JavaScript values and strings\<close>

text \<open>
  The front end is JavaScript. Text is modelled as \<open>string\<close>, one \<open>char\<close> per UTF-16
  code unit, which covers the code units U+0000 to U+00FF. Values that come out of
  \<^verbatim>\<open>JSON.parse\<close> or out of a property read are \<open>jsval\<close>; \<open>Undefined\<close> is what a
  read of a missing property gives. An object is the list of its own properties, the
  first entry for a name being the one a read sees.
\<close>

datatype jsval =
    Undefined
  | Null
  | Bool bool
  | Num rat
  | Str string
  | Arr "jsval list"
  | Obj "(string \<times> jsval) list"

datatype error = TypeError

text \<open>An address in a store of objects or arrays: an index into the list that is the store.\<close>

type_synonym addr = nat

text \<open>JavaScript's truthiness, as \<^verbatim>\<open>||\<close> and \<^verbatim>\<open>!\<close> test it.\<close>

fun truthy :: "jsval \<Rightarrow> bool" where
  "truthy Undefined = False"
| "truthy Null = False"
| "truthy (Bool b) = b"
| "truthy (Num n) = (n \<noteq> 0)"
| "truthy (Str s) = (s \<noteq> [])"
| "truthy (Arr xs) = True"
| "truthy (Obj kvs) = True"

text \<open>\<^verbatim>\<open>a || b\<close>.\<close>

definition js_or :: "jsval \<Rightarrow> jsval \<Rightarrow> jsval" where
  "js_or a b = (if truthy a then a else b)"

text \<open>
  \<^verbatim>\<open>v.name\<close>: a TypeError on \<^verbatim>\<open>null\<close> and \<^verbatim>\<open>undefined\<close>, the property's value on an
  object that has it, \<^verbatim>\<open>undefined\<close> otherwise. (The names read in this program,
  \<^verbatim>\<open>type\<close>, \<^verbatim>\<open>data\<close>, \<^verbatim>\<open>metadata\<close> and \<^verbatim>\<open>message\<close>, are not properties of any
  primitive's or array's prototype.)
\<close>

fun get_prop :: "string \<Rightarrow> jsval \<Rightarrow> error + jsval" where
  "get_prop k Undefined = Inl TypeError"
| "get_prop k Null = Inl TypeError"
| "get_prop k (Obj kvs) = Inr (case map_of kvs k of Some v \<Rightarrow> v | None \<Rightarrow> Undefined)"
| "get_prop k v = Inr Undefined"

text \<open>
  \<^verbatim>\<open>String.prototype.trim\<close> strips white space and line terminators from both ends;
  below U+0100 these are TAB, LF, VT, FF, CR, SP and NBSP.
\<close>

definition is_ws :: "char \<Rightarrow> bool" where
  "is_ws c = (c \<in> {CHR 0x09, CHR 0x0A, CHR 0x0B, CHR 0x0C, CHR 0x0D, CHR 0x20, CHR 0xA0})"

definition trim :: "string \<Rightarrow> string" where
  "trim s = rev (dropWhile is_ws (rev (dropWhile is_ws s)))"

text \<open>\<^verbatim>\<open>s || d\<close> on strings: the empty string is the only falsy one.\<close>

definition str_or :: "string \<Rightarrow> string \<Rightarrow> string" where
  "str_or s d = (if s \<noteq> [] then s else d)"

section \<open>Council settings (App.jsx)\<close>

text \<open>
  \<^verbatim>\<open>settingsForm\<close> holds \<^verbatim>\<open>council_models\<close> and \<^verbatim>\<open>chairman_model\<close>; a stored council
  has the same two fields and a \<^verbatim>\<open>key\<close> and a \<^verbatim>\<open>name\<close>. The object spread
  \<^verbatim>\<open>{ ...prev, council_models: a, chairman_model: b }\<close> is a record update, which keeps
  every other field.
\<close>

record form =
  council_models :: "string list"
  chairman_model :: string

record council = form +
  key :: string
  name :: string

text \<open>\<^verbatim>\<open>models[0] || ''\<close>: \<^verbatim>\<open>undefined\<close> on the empty array, and falsy on an empty first entry.\<close>

definition first_or_empty :: "string list \<Rightarrow> string" where
  "first_or_empty models = (case models of [] \<Rightarrow> [] | m # _ \<Rightarrow> str_or m [])"

text \<open>
  \<^verbatim>\<open>handleToggleModel\<close>, the updater passed to \<^verbatim>\<open>setSettingsForm\<close> (the same text in
  both revisions of App.jsx).
\<close>

definition handleToggleModel :: "string \<Rightarrow> 'a form_scheme \<Rightarrow> 'a form_scheme" where
  "handleToggleModel model prev =
     (let exists = model \<in> set (council_models prev) in
      if \<not> exists \<and> length (council_models prev) \<ge> 4 then prev
      else
        let nextModels =
              (if exists then filter (\<lambda>m. m \<noteq> model) (council_models prev)
               else council_models prev @ [model]);
            nextChair =
              (if chairman_model prev \<in> set nextModels then chairman_model prev
               else first_or_empty nextModels)
        in prev\<lparr>council_models := nextModels, chairman_model := nextChair\<rparr>)"

text \<open>
  The settings state of the component. Plain names follow the revision of App.jsx with
  named councils (src/unnamed/part_001); a definition with the suffix \<open>_App\<close> follows
  src/frontend/src/App.jsx where the two revisions differ. A handler reads the state of
  the render it was created in and queues its updates; the model applies them in the
  order the handler issues them.
\<close>

record settings_state =
  councils :: "council list"
  editingCouncilKey :: string
  editingCouncilName :: string
  isNewCouncil :: bool
  settingsForm :: form
  dirtyCouncils :: "string list"
  availableModels :: "string list"
  settingsError :: string
  councilError :: string
  addModelError :: string
  newModelInput :: string
  apiKeyInput :: string
  removeApiKey :: bool

text \<open>
  \<^verbatim>\<open>dirtyCouncils\<close> is a \<^verbatim>\<open>Set\<close> of keys: it holds each key once and lists them in the
  order they were added. \<open>set_add\<close> is \<^verbatim>\<open>merged.add(key)\<close>.
\<close>

definition set_add :: "string \<Rightarrow> string list \<Rightarrow> string list" where
  "set_add k ks = (if k \<in> set ks then ks else ks @ [k])"

text \<open>The per-council clean-up inside \<^verbatim>\<open>setCouncils((prev) => prev.map(...))\<close>.\<close>

definition trim_council :: "string \<Rightarrow> council \<Rightarrow> council" where
  "trim_council model council =
     (if model \<notin> set (council_models council) then council
      else
        let trimmedModels = filter (\<lambda>m. m \<noteq> model) (council_models council);
            trimmedChair =
              (if chairman_model council \<in> set trimmedModels then chairman_model council
               else first_or_empty trimmedModels)
        in council\<lparr>council_models := trimmedModels, chairman_model := trimmedChair\<rparr>)"

definition handleRemoveModel :: "string \<Rightarrow> settings_state \<Rightarrow> settings_state" where
  "handleRemoveModel model s =
     (let s0 = s\<lparr>settingsError := [], councilError := []\<rparr> in
      case find (\<lambda>council. key council \<noteq> editingCouncilKey s
                       \<and> model \<in> set (council_models council)
                       \<and> length (council_models council) \<le> 1) (councils s) of
        Some blockingCouncil \<Rightarrow>
          s0\<lparr>councilError :=
               name blockingCouncil @ '' would have no members if you remove '' @ model
                 @ ''. Add another model first.''\<rparr>
      | None \<Rightarrow>
          let editingUsesModel = model \<in> set (council_models (settingsForm s));
              nextCouncilModels =
                (if editingUsesModel
                 then filter (\<lambda>m. m \<noteq> model) (council_models (settingsForm s))
                 else council_models (settingsForm s));
              nextChair =
                (if chairman_model (settingsForm s) \<in> set nextCouncilModels
                 then chairman_model (settingsForm s)
                 else first_or_empty nextCouncilModels);
              changedKeys =
                map key (filter (\<lambda>council. model \<in> set (council_models council)) (councils s))
          in s0\<lparr>councils := map (trim_council model) (councils s),
                dirtyCouncils :=
                  fold set_add
                    (changedKeys
                       @ (if editingUsesModel \<and> \<not> isNewCouncil s then [editingCouncilKey s]
                          else []))
                    (dirtyCouncils s),
                settingsForm :=
                  (settingsForm s)\<lparr>council_models := nextCouncilModels, chairman_model := nextChair\<rparr>,
                availableModels := filter (\<lambda>m. m \<noteq> model) (availableModels s)\<rparr>)"

definition handleSelectEditingCouncil :: "string \<Rightarrow> settings_state \<Rightarrow> settings_state" where
  "handleSelectEditingCouncil k s =
     (case find (\<lambda>c. key c = k) (councils s) of
        None \<Rightarrow> s
      | Some council \<Rightarrow>
          s\<lparr>editingCouncilKey := key council,
            editingCouncilName := name council,
            isNewCouncil := False,
            settingsForm :=
              \<lparr>council_models = council_models council, chairman_model = chairman_model council\<rparr>,
            councilError := [],
            addModelError := [],
            newModelInput := []\<rparr>)"

text \<open>
  What \<^verbatim>\<open>await\<close> of a request comes to: the promise rejects with an error, given here
  by its \<^verbatim>\<open>message\<close>, or resolves with the reply.
\<close>

datatype 'a awaited = Throws string | Resolves 'a

text \<open>
  The requests of \<^verbatim>\<open>handleSaveSettings\<close>, with what they carry:
  \<^verbatim>\<open>api.updateSettings(payload)\<close> with the \<^verbatim>\<open>openrouter_api_key\<close>, \<^verbatim>\<open>council_models\<close>,
  \<^verbatim>\<open>chairman_model\<close> and \<^verbatim>\<open>available_models\<close> of the payload (\<open>None\<close>: the payload has
  no such property); \<^verbatim>\<open>api.createCouncil\<close> with \<^verbatim>\<open>name\<close>, \<^verbatim>\<open>council_models\<close> and
  \<^verbatim>\<open>chairman_model\<close>; \<^verbatim>\<open>api.updateCouncil\<close> with the key and the same three; and
  \<^verbatim>\<open>api.listCouncils()\<close>. \<open>saved_models\<close> is the member list a request sends.
\<close>

datatype api_call =
    UpdateSettings jsval "string list" string "string list option"
  | CreateCouncil string "string list" string
  | UpdateCouncil string string "string list" string
  | ListCouncils

fun saved_models :: "api_call \<Rightarrow> string list option" where
  "saved_models (UpdateSettings api_key models chair available) = Some models"
| "saved_models (CreateCouncil nm models chair) = Some models"
| "saved_models (UpdateCouncil k nm models chair) = Some models"
| "saved_models ListCouncils = None"

text \<open>
  The server is not among the sources, so what it answers in one run of
  \<^verbatim>\<open>handleSaveSettings\<close> is a parameter: the reply to the \<^verbatim>\<open>createCouncil\<close> or
  \<^verbatim>\<open>updateCouncil\<close> of the form (the saved council; \<open>None\<close> is a \<^verbatim>\<open>null\<close> body), to each
  \<^verbatim>\<open>updateCouncil\<close> of the loop over the dirty councils (its value is not used), to
  \<^verbatim>\<open>listCouncils\<close> (the stored councils), and to \<^verbatim>\<open>updateSettings\<close> (an object, of which
  the model keeps \<^verbatim>\<open>available_models\<close>; \<open>None\<close> when it has none). A council in a reply
  has the fields of a stored council, as the ones in \<^verbatim>\<open>councils\<close> have, which come from
  the same requests.
\<close>

record server =
  saved_reply :: "council option awaited"
  resave_reply :: "api_call \<Rightarrow> unit awaited"
  list_reply :: "council list awaited"
  settings_reply :: "string list option awaited"

text \<open>
  The \<^verbatim>\<open>catch\<close> of \<^verbatim>\<open>handleSaveSettings\<close> (both revisions), on the message of the error
  caught.
\<close>

definition catch_save :: "string \<Rightarrow> settings_state \<Rightarrow> settings_state" where
  "catch_save error_message s =
     s\<lparr>settingsError := str_or error_message ''Failed to save settings.''\<rparr>"

text \<open>
  The requests of the loop \<^verbatim>\<open>for (const key of dirtyKeys)\<close>, in order: every council
  that \<^verbatim>\<open>handleRemoveModel\<close> has marked dirty, but the one just saved, is saved again
  as it is stored. \<open>savedKey\<close> is the \<^verbatim>\<open>key\<close> of the saved council in the first reply
  (empty when the reply has none).
\<close>

definition resave_requests :: "settings_state \<Rightarrow> string \<Rightarrow> api_call list" where
  "resave_requests s savedKey =
     (let dirtyKeys = filter (\<lambda>k. k \<noteq> str_or savedKey (editingCouncilKey s)) (dirtyCouncils s)
      in List.map_filter
           (\<lambda>k. case find (\<lambda>c. key c = k) (councils s) of
                  None \<Rightarrow> None
                | Some council \<Rightarrow>
                    Some (UpdateCouncil k (name council) (council_models council)
                            (chairman_model council)))
           dirtyKeys)"

text \<open>
  The loop awaits each request before the next: the requests issued, and the message
  of the error when one of them is rejected, which ends the loop.
\<close>

fun resave_loop ::
  "(api_call \<Rightarrow> unit awaited) \<Rightarrow> api_call list \<Rightarrow> api_call list \<times> string option" where
  "resave_loop reply [] = ([], None)"
| "resave_loop reply (call # rest) =
     (case reply call of
        Throws error_message \<Rightarrow> ([call], Some error_message)
      | Resolves u \<Rightarrow>
          (case resave_loop reply rest of (sent, thrown) \<Rightarrow> (call # sent, thrown)))"

text \<open>
  \<^verbatim>\<open>handleSaveSettings\<close> of the revision with named councils, against a given server:
  the state when the handler has finished, and the requests it has issued, in order.
  The handler reads the state of its render throughout. Of the state it sets after the
  replies the model keeps the variables of \<open>settings_state\<close>; \<^verbatim>\<open>hasApiKey\<close>,
  \<^verbatim>\<open>apiKeyLast4\<close>, \<^verbatim>\<open>selectedCouncilKey\<close>, \<^verbatim>\<open>isSettingsOpen\<close> and \<^verbatim>\<open>updateStatus\<close> are
  set as well. \<^verbatim>\<open>x?.council_models || y\<close> is the list of \<open>x\<close> whenever there is an \<open>x\<close>,
  an array being truthy.
\<close>

definition handleSaveSettings ::
  "server \<Rightarrow> settings_state \<Rightarrow> settings_state \<times> api_call list" where
  "handleSaveSettings srv s =
     (let s0 = s\<lparr>settingsError := [], councilError := []\<rparr> in
      if council_models (settingsForm s) = [] then
        (s0\<lparr>settingsError := ''Select at least one council member (max 4).''\<rparr>, [])
      else if length (council_models (settingsForm s)) > 4 then
        (s0\<lparr>settingsError := ''Council limited to 4 members.''\<rparr>, [])
      else if chairman_model (settingsForm s) = [] then
        (s0\<lparr>settingsError := ''Choose a chairman from the selected members.''\<rparr>, [])
      else
        let cleanedAvailable =
              fold set_add (filter (\<lambda>m. m \<noteq> []) (map trim (availableModels s))) [];
            councilName = str_or (trim (editingCouncilName s)) ''Untitled Council'';
            first =
              (if isNewCouncil s
               then CreateCouncil councilName (council_models (settingsForm s))
                      (chairman_model (settingsForm s))
               else UpdateCouncil (editingCouncilKey s) councilName
                      (council_models (settingsForm s)) (chairman_model (settingsForm s)))
        in
        case saved_reply srv of
          Throws error_message \<Rightarrow> (catch_save error_message s0, [first])
        | Resolves savedCouncil \<Rightarrow>
            (case resave_loop (resave_reply srv)
                    (resave_requests s (case savedCouncil of None \<Rightarrow> [] | Some c \<Rightarrow> key c)) of
               (sent, Some error_message) \<Rightarrow> (catch_save error_message s0, first # sent)
             | (sent, None) \<Rightarrow>
                 (case list_reply srv of
                    Throws error_message \<Rightarrow>
                      (catch_save error_message s0, first # sent @ [ListCouncils])
                  | Resolves latestCouncils \<Rightarrow>
                      let s1 = s0\<lparr>councils := latestCouncils, dirtyCouncils := []\<rparr>;
                          settingsCouncil =
                            (case find (\<lambda>council. key council = ''default'') latestCouncils of
                               Some council \<Rightarrow> Some council
                             | None \<Rightarrow> savedCouncil);
                          payload =
                            UpdateSettings
                              (if removeApiKey s then Str []
                               else if trim (apiKeyInput s) \<noteq> [] then Str (trim (apiKeyInput s))
                               else Null)
                              (case settingsCouncil of
                                 None \<Rightarrow> council_models (settingsForm s)
                               | Some c \<Rightarrow> council_models c)
                              (case settingsCouncil of
                                 None \<Rightarrow> chairman_model (settingsForm s)
                               | Some c \<Rightarrow>
                                   str_or (chairman_model c) (chairman_model (settingsForm s)))
                              (Some cleanedAvailable);
                          requests = first # sent @ [ListCouncils, payload]
                      in
                      (case settings_reply srv of
                         Throws error_message \<Rightarrow> (catch_save error_message s1, requests)
                       | Resolves updated \<Rightarrow>
                          (s1\<lparr>availableModels :=
                                 (case updated of
                                    None \<Rightarrow> cleanedAvailable
                                  | Some available \<Rightarrow> available),
                               settingsForm :=
                                 \<lparr>council_models =
                                    (case savedCouncil of
                                       None \<Rightarrow> council_models (settingsForm s)
                                     | Some c \<Rightarrow> council_models c),
                                  chairman_model =
                                    (case savedCouncil of
                                       None \<Rightarrow> chairman_model (settingsForm s)
                                     | Some c \<Rightarrow>
                                         str_or (chairman_model c)
                                           (chairman_model (settingsForm s)))\<rparr>,
                               editingCouncilKey :=
                                 (case savedCouncil of
                                    None \<Rightarrow> editingCouncilKey s
                                  | Some c \<Rightarrow> str_or (key c) (editingCouncilKey s)),
                               editingCouncilName :=
                                 (case savedCouncil of
                                    None \<Rightarrow> councilName
                                  | Some c \<Rightarrow> str_or (name c) councilName),
                               isNewCouncil := False,
                               removeApiKey := False,
                               apiKeyInput := []\<rparr>,
                           requests)))))"

text \<open>
  \<^verbatim>\<open>handleSaveSettings\<close> of src/frontend/src/App.jsx, which has one request. The reply
  is the settings as the server stores them, of which \<^verbatim>\<open>council_models\<close> and
  \<^verbatim>\<open>chairman_model\<close> go into the form.
\<close>

definition handleSaveSettings_App ::
  "form awaited \<Rightarrow> settings_state \<Rightarrow> settings_state \<times> api_call list" where
  "handleSaveSettings_App reply s =
     (let s0 = s\<lparr>settingsError := []\<rparr> in
      if council_models (settingsForm s) = [] then
        (s0\<lparr>settingsError := ''Select at least one council member (max 4).''\<rparr>, [])
      else if length (council_models (settingsForm s)) > 4 then
        (s0\<lparr>settingsError := ''Council limited to 4 members.''\<rparr>, [])
      else if chairman_model (settingsForm s) = [] then
        (s0\<lparr>settingsError := ''Choose a chairman from the selected members.''\<rparr>, [])
      else
        let payload =
              UpdateSettings
                (if removeApiKey s then Str []
                 else if trim (apiKeyInput s) \<noteq> [] then Str (trim (apiKeyInput s)) else Null)
                (council_models (settingsForm s)) (chairman_model (settingsForm s)) None
        in
        case reply of
          Throws error_message \<Rightarrow> (catch_save error_message s0, [payload])
        | Resolves updated \<Rightarrow>
            (s0\<lparr>settingsForm :=
                   \<lparr>council_models = council_models updated,
                    chairman_model = chairman_model updated\<rparr>,
                 removeApiKey := False,
                 apiKeyInput := []\<rparr>,
             [payload]))"

text \<open>The initial values of the settings state, as \<^verbatim>\<open>useState\<close> receives them.\<close>

definition init_settings :: settings_state where
  "init_settings =
     \<lparr>councils = [], editingCouncilKey = ''default'', editingCouncilName = ''General'',
      isNewCouncil = False, settingsForm = \<lparr>council_models = [], chairman_model = []\<rparr>,
      dirtyCouncils = [], availableModels = [], settingsError = [], councilError = [],
      addModelError = [], newModelInput = [], apiKeyInput = [], removeApiKey = False\<rparr>"

text \<open>The chairman of a form or council is one of its members, unless it has none.\<close>

definition chair_is_member :: "'a form_scheme \<Rightarrow> bool" where
  "chair_is_member f = (council_models f = [] \<or> chairman_model f \<in> set (council_models f))"

text \<open>The guard of \<^verbatim>\<open>handleRemoveModel\<close>: no other council would be left empty.\<close>

definition blocked :: "string \<Rightarrow> settings_state \<Rightarrow> bool" where
  "blocked model s =
     (find (\<lambda>council. key council \<noteq> editingCouncilKey s
                       \<and> model \<in> set (council_models council)
                       \<and> length (council_models council) \<le> 1) (councils s) \<noteq> None)"

text \<open>
  An edit state with one stored council, \<^verbatim>\<open>k\<close>, of two members chaired by the first,
  open in the form.
\<close>

definition two_member_state :: settings_state where
  "two_member_state =
     init_settings
       \<lparr>councils := [\<lparr>council_models = [''a'', ''b''], chairman_model = ''a'',
                       key = ''k'', name = ''K''\<rparr>],
        editingCouncilKey := ''k'',
        settingsForm := \<lparr>council_models = [''a'', ''b''], chairman_model = ''a''\<rparr>\<rparr>"

text \<open>
  Two stored councils, \<^verbatim>\<open>a\<close> with the one member \<^verbatim>\<open>m1\<close> and \<^verbatim>\<open>b\<close> with \<^verbatim>\<open>m2\<close>, and
  \<^verbatim>\<open>a\<close> open in the form.
\<close>

definition two_council_state :: settings_state where
  "two_council_state =
     init_settings
       \<lparr>councils := [\<lparr>council_models = [''m1''], chairman_model = ''m1'',
                       key = ''a'', name = ''A''\<rparr>,
                     \<lparr>council_models = [''m2''], chairman_model = ''m2'',
                       key = ''b'', name = ''B''\<rparr>],
        editingCouncilKey := ''a'',
        editingCouncilName := ''A'',
        availableModels := [''m1'', ''m2''],
        settingsForm := \<lparr>council_models = [''m1''], chairman_model = ''m1''\<rparr>\<rparr>"

text \<open>
  A server that accepts every request and stores what it is sent, as it answers once
  \<^verbatim>\<open>m1\<close> has been removed and \<^verbatim>\<open>b\<close> is saved: the saved council is \<^verbatim>\<open>b\<close>, and the
  list has \<^verbatim>\<open>a\<close> without members.
\<close>

definition accepting_server :: server where
  "accepting_server =
     \<lparr>saved_reply =
        Resolves (Some \<lparr>council_models = [''m2''], chairman_model = ''m2'',
                         key = ''b'', name = ''B''\<rparr>),
      resave_reply = (\<lambda>call. Resolves ()),
      list_reply =
        Resolves [\<lparr>council_models = [], chairman_model = [], key = ''a'', name = ''A''\<rparr>,
                  \<lparr>council_models = [''m2''], chairman_model = ''m2'',
                    key = ''b'', name = ''B''\<rparr>],
      settings_reply = Resolves (Some [''m2''])\<rparr>"

section \<open>The streaming client (api.sendMessageStream)\<close>

text \<open>
  \<^verbatim>\<open>buffer.split('\n\n')\<close>: the pieces between the occurrences of a blank line, found
  from the left and not overlapping; the result is never empty.
\<close>

definition cons_hd :: "char \<Rightarrow> string list \<Rightarrow> string list" where
  "cons_hd a ps = (case ps of [] \<Rightarrow> [[a]] | p # rest \<Rightarrow> (a # p) # rest)"

fun split_blank :: "string \<Rightarrow> string list" where
  "split_blank (a # b # cs) =
     (if a = CHR 0x0A \<and> b = CHR 0x0A then [] # split_blank cs
      else cons_hd a (split_blank (b # cs)))"
| "split_blank [a] = [[a]]"
| "split_blank [] = [[]]"

text \<open>
  What the client does, in order: a call of \<^verbatim>\<open>onEvent(event.type, event)\<close>, or the
  \<^verbatim>\<open>console.error\<close> of the \<^verbatim>\<open>catch\<close> with the chunk it could not deliver.
\<close>

datatype action = OnEvent jsval jsval | ConsoleError string

text \<open>
  The body of \<^verbatim>\<open>for (const evt of events)\<close>. \<^verbatim>\<open>JSON.parse\<close> is the platform's; it is a
  parameter, \<open>None\<close> standing for its SyntaxError. The \<^verbatim>\<open>try\<close> covers the parse and the
  evaluation of the arguments \<^verbatim>\<open>event.type, event\<close>, so a TypeError from reading
  \<^verbatim>\<open>type\<close> is caught like a SyntaxError. (An exception thrown by \<^verbatim>\<open>onEvent\<close> itself is
  caught there too, after the call has been made.)
\<close>

definition deliver_evt :: "(string \<Rightarrow> jsval option) \<Rightarrow> string \<Rightarrow> action list" where
  "deliver_evt parse evt =
     (let line = trim evt in
      if \<not> prefix ''data: '' line then []
      else
        let data = drop 6 line in
        case parse data of
          None \<Rightarrow> [ConsoleError data]
        | Some event \<Rightarrow>
            (case get_prop ''type'' event of
               Inl e \<Rightarrow> [ConsoleError data]
             | Inr event_type \<Rightarrow> [OnEvent event_type event]))"

text \<open>
  The \<^verbatim>\<open>while (true)\<close> loop over \<^verbatim>\<open>reader.read()\<close>, one step per chunk read; the list
  holds the chunks as the \<^verbatim>\<open>TextDecoder\<close> returns them, and its end is \<^verbatim>\<open>done\<close>. The
  result is what was done and the buffer left at the end.
\<close>

fun read_loop ::
  "(string \<Rightarrow> jsval option) \<Rightarrow> string \<Rightarrow> string list \<Rightarrow> action list \<times> string" where
  "read_loop parse buffer [] = ([], buffer)"
| "read_loop parse buffer (v # rest) =
     (let buffer1 = buffer @ v;
          events = split_blank buffer1;
          buffer2 = str_or (last events) [];
          (later, final) = read_loop parse buffer2 rest
      in (concat (map (deliver_evt parse) (butlast events)) @ later, final))"

text \<open>
  What \<^verbatim>\<open>fetch\<close> and the body stream can do: \<^verbatim>\<open>fetch\<close> rejects; the response is not
  \<^verbatim>\<open>ok\<close> and has a body text; or the body is read chunk by chunk until it is done or
  a read rejects. An error is represented by its \<^verbatim>\<open>message\<close>.
\<close>

datatype response =
    Rejected string
  | NotOk string
  | Streaming "string list" "string option"

text \<open>
  \<^verbatim>\<open>sendMessageStream\<close>: the actions, and the message of the error it throws, if any. On
  a response that is not \<^verbatim>\<open>ok\<close> the error made from the server's \<^verbatim>\<open>detail\<close> is thrown
  inside a \<^verbatim>\<open>try\<close> whose \<^verbatim>\<open>catch\<close> is empty, so the error that leaves the function is
  always the one made from the body text.
\<close>

definition sendMessageStream ::
  "(string \<Rightarrow> jsval option) \<Rightarrow> response \<Rightarrow> action list \<times> string option" where
  "sendMessageStream parse r =
     (case r of
        Rejected msg \<Rightarrow> ([], Some msg)
      | NotOk text \<Rightarrow> ([], Some (str_or text ''Failed to send message''))
      | Streaming reads closing \<Rightarrow> (fst (read_loop parse [] reads), closing))"

text \<open>The calls of \<^verbatim>\<open>onEvent\<close> among the actions, with their two arguments.\<close>

fun calls_of :: "action list \<Rightarrow> (jsval \<times> jsval) list" where
  "calls_of [] = []"
| "calls_of (OnEvent event_type event # rest) = (event_type, event) # calls_of rest"
| "calls_of (ConsoleError chunk # rest) = calls_of rest"

text \<open>
  The description of the delivery, chunk by chunk: a chunk is delivered when its trimmed
  text starts with \<^verbatim>\<open>data: \<close> and the rest of it parses to a value that has properties
  (any JSON value but \<^verbatim>\<open>null\<close>); the call then is \<^verbatim>\<open>onEvent(event.type, event)\<close>.
\<close>

definition prop_of :: "string \<Rightarrow> jsval \<Rightarrow> jsval" where
  "prop_of k event =
     (case event of
        Obj kvs \<Rightarrow> (case map_of kvs k of Some v \<Rightarrow> v | None \<Rightarrow> Undefined)
      | _ \<Rightarrow> Undefined)"

definition type_of :: "jsval \<Rightarrow> jsval" where
  "type_of event = prop_of ''type'' event"

definition delivered :: "(string \<Rightarrow> jsval option) \<Rightarrow> string \<Rightarrow> (jsval \<times> jsval) option" where
  "delivered parse chunk =
     (if prefix ''data: '' (trim chunk) then
        (case parse (drop 6 (trim chunk)) of
           None \<Rightarrow> None
         | Some event \<Rightarrow>
             if event = Null \<or> event = Undefined then None else Some (type_of event, event))
      else None)"

text \<open>
  The texts used in the examples below, with the values \<^verbatim>\<open>JSON.parse\<close> gives for them;
  \<open>example_parse\<close> is \<^verbatim>\<open>JSON.parse\<close> on these texts and rejects every other text.
\<close>

definition example_parse :: "string \<Rightarrow> jsval option" where
  \<open>example_parse =
     map_of
       [(''null'', Null),
        (''{"type":"stage1_start"}'', Obj [(''type'', Str ''stage1_start'')]),
        (''{"type":"complete"}'', Obj [(''type'', Str ''complete'')])]\<close>

section \<open>The conversation list (App.jsx)\<close>

text \<open>
  An entry of \<^verbatim>\<open>conversations\<close> and the open conversation share \<^verbatim>\<open>id\<close> and \<^verbatim>\<open>title\<close>.
  The time stamps of an entry are whatever the server sent or an earlier update set;
  \<open>Undefined\<close> is a missing one, and the code tests them with \<^verbatim>\<open>||\<close> only.
\<close>

record conv_head =
  conv_id :: string
  title :: string

record summary = conv_head +
  created_at :: jsval
  updated_at :: jsval
  lastInteracted :: jsval
  last_interacted_at :: jsval
  council_key :: jsval

definition getLastInteracted :: "'a summary_scheme option \<Rightarrow> jsval" where
  "getLastInteracted conv =
     (case conv of
        None \<Rightarrow> Null
      | Some c \<Rightarrow>
          js_or (js_or (js_or (js_or (lastInteracted c) (last_interacted_at c)) (updated_at c))
                   (created_at c))
            Null)"

text \<open>
  \<^verbatim>\<open>new Date(value).getTime()\<close> is the platform's and a parameter, \<open>getTime\<close>: the time
  in milliseconds, or \<open>None\<close> for the NaN of an invalid date. The difference of two
  times is NaN when one of them is.
\<close>

definition toTime :: "(jsval \<Rightarrow> int option) \<Rightarrow> jsval \<Rightarrow> int option" where
  "toTime getTime v = (if truthy v then getTime v else Some 0)"

definition activity_cmp ::
  "(jsval \<Rightarrow> int option) \<Rightarrow> 'a summary_scheme \<Rightarrow> 'a summary_scheme \<Rightarrow> int option" where
  "activity_cmp getTime a b =
     (case (toTime getTime (getLastInteracted (Some b)),
            toTime getTime (getLastInteracted (Some a))) of
        (Some tb, Some ta) \<Rightarrow> Some (tb - ta)
      | _ \<Rightarrow> None)"

text \<open>
  \<^verbatim>\<open>Array.prototype.sort\<close> with a comparator: a NaN from the comparator counts as 0, and
  the sort is stable. It is modelled as the insertion sort that keeps equal elements in
  their order. For a consistent comparator every stable sort returns this array; for
  an inconsistent one (a NaN among the times) ECMAScript leaves the order to the
  implementation, and the model is one of them.
\<close>

definition sort_compare :: "('a \<Rightarrow> 'a \<Rightarrow> int option) \<Rightarrow> 'a \<Rightarrow> 'a \<Rightarrow> int" where
  "sort_compare cmp x y = (case cmp x y of None \<Rightarrow> 0 | Some v \<Rightarrow> v)"

fun insert_stable :: "('a \<Rightarrow> 'a \<Rightarrow> int option) \<Rightarrow> 'a \<Rightarrow> 'a list \<Rightarrow> 'a list" where
  "insert_stable cmp x [] = [x]"
| "insert_stable cmp x (y # ys) =
     (if sort_compare cmp x y \<le> 0 then x # y # ys else y # insert_stable cmp x ys)"

fun array_sort :: "('a \<Rightarrow> 'a \<Rightarrow> int option) \<Rightarrow> 'a list \<Rightarrow> 'a list" where
  "array_sort cmp [] = []"
| "array_sort cmp (x # xs) = insert_stable cmp x (array_sort cmp xs)"

text \<open>\<^verbatim>\<open>[...list].sort(...)\<close>: the contents of the new array.\<close>

definition sortConversationsByActivity ::
  "(jsval \<Rightarrow> int option) \<Rightarrow> 'a summary_scheme list \<Rightarrow> 'a summary_scheme list" where
  "sortConversationsByActivity getTime list = array_sort (activity_cmp getTime) list"

text \<open>
  \<^verbatim>\<open>prevMap.get(id)\<close> for \<^verbatim>\<open>new Map(previous.map((conv) => [conv.id, conv]))\<close>: of two
  entries with one id the later one is in the map.
\<close>

definition prevMap_get :: "'a summary_scheme list \<Rightarrow> string \<Rightarrow> 'a summary_scheme option" where
  "prevMap_get previous i = find (\<lambda>conv. conv_id conv = i) (rev previous)"

text \<open>The arrow function of \<^verbatim>\<open>incoming.map(...)\<close>, and the merge.\<close>

definition normalized :: "'a summary_scheme list \<Rightarrow> 'a summary_scheme \<Rightarrow> 'a summary_scheme" where
  "normalized previous conv =
     conv\<lparr>council_key := js_or (council_key conv) (Str ''default''),
          lastInteracted :=
            js_or (js_or (getLastInteracted (Some conv))
                     (getLastInteracted (prevMap_get previous (conv_id conv))))
              (created_at conv),
          last_interacted_at :=
            js_or (js_or (js_or (js_or (last_interacted_at conv)
                     (case prevMap_get previous (conv_id conv) of
                        None \<Rightarrow> Undefined
                      | Some p \<Rightarrow> last_interacted_at p))
                     (getLastInteracted (Some conv)))
                     (getLastInteracted (prevMap_get previous (conv_id conv))))
              (created_at conv)\<rparr>"

definition mergeConversationsWithRecency ::
  "(jsval \<Rightarrow> int option) \<Rightarrow> 'a summary_scheme list \<Rightarrow> 'a summary_scheme list
     \<Rightarrow> 'a summary_scheme list" where
  "mergeConversationsWithRecency getTime incoming previous =
     sortConversationsByActivity getTime (map (normalized previous) incoming)"


text \<open>
  \<^verbatim>\<open>sortConversationsByActivity\<close> with the arrays in a store (a list of arrays, an
  address being an index): \<^verbatim>\<open>[...list]\<close> makes a new array with the elements of the
  one at \<open>list\<close>, \<^verbatim>\<open>sort\<close> sorts the new array in place, and the new array is
  returned.
\<close>

definition sortConversationsByActivity_store ::
  "(jsval \<Rightarrow> int option) \<Rightarrow> addr \<Rightarrow> 'a summary_scheme list list
     \<Rightarrow> addr \<times> 'a summary_scheme list list" where
  "sortConversationsByActivity_store getTime list arrays =
     (let copy = length arrays;
          arrays1 = arrays @ [arrays ! list]
      in (copy, arrays1[copy := array_sort (activity_cmp getTime) (arrays1 ! copy)]))"

text \<open>The time an entry is sorted by.\<close>

definition activity_time :: "(jsval \<Rightarrow> int option) \<Rightarrow> 'a summary_scheme \<Rightarrow> int option" where
  "activity_time getTime c = toTime getTime (getLastInteracted (Some c))"

text \<open>
  Three dates with the times \<^verbatim>\<open>new Date(...).getTime()\<close> gives for them; \<open>example_time\<close>
  is \<^verbatim>\<open>getTime\<close> on these and NaN elsewhere.
\<close>

definition example_time :: "jsval \<Rightarrow> int option" where
  "example_time v =
     (case v of
        Str s \<Rightarrow>
          map_of
            [(''2024-01-01T00:00:00Z'', 1704067200000),
             (''2024-02-01T00:00:00Z'', 1706745600000),
             (''2024-06-01T00:00:00Z'', 1717200000000)] s
      | _ \<Rightarrow> None)"

text \<open>
  The list before a refresh: \<^verbatim>\<open>c1\<close>, created in January and last used in June, and
  \<^verbatim>\<open>c2\<close>, created in February. The server's list gives \<^verbatim>\<open>id\<close>, \<^verbatim>\<open>title\<close> and
  \<^verbatim>\<open>created_at\<close> for each.
\<close>

definition previous_list :: "summary list" where
  "previous_list =
     [\<lparr>conv_id = ''c1'', title = ''First'', created_at = Str ''2024-01-01T00:00:00Z'',
       updated_at = Undefined, lastInteracted = Str ''2024-06-01T00:00:00Z'',
       last_interacted_at = Str ''2024-06-01T00:00:00Z'', council_key = Str ''default''\<rparr>,
      \<lparr>conv_id = ''c2'', title = ''Second'', created_at = Str ''2024-02-01T00:00:00Z'',
       updated_at = Undefined, lastInteracted = Str ''2024-02-01T00:00:00Z'',
       last_interacted_at = Str ''2024-02-01T00:00:00Z'', council_key = Str ''default''\<rparr>]"

definition incoming_list :: "summary list" where
  "incoming_list =
     [\<lparr>conv_id = ''c1'', title = ''First'', created_at = Str ''2024-01-01T00:00:00Z'',
       updated_at = Undefined, lastInteracted = Undefined,
       last_interacted_at = Undefined, council_key = Undefined\<rparr>,
      \<lparr>conv_id = ''c2'', title = ''Second'', created_at = Str ''2024-02-01T00:00:00Z'',
       updated_at = Undefined, lastInteracted = Undefined,
       last_interacted_at = Undefined, council_key = Undefined\<rparr>]"

section \<open>Sending a message (handleSendMessage)\<close>

text \<open>
  The event handlers write into the last message object of the conversation in place
  (\<^verbatim>\<open>[...prev.messages]\<close> copies the array, not the objects in it), so message objects
  live in a store and a conversation holds their addresses. The store is a list and an
  address an index into it; a new object goes to the end. The \<^verbatim>\<open>loading\<close> object of
  an assistant message is created inside its literal and referenced from nowhere else,
  so it is held in the message; \<open>None\<close> is a message without the property, as a user
  message is.
\<close>

record loading_flags =
  loading_stage1 :: bool
  loading_stage2 :: bool
  loading_stage3 :: bool

record message =
  role :: string
  content :: jsval
  stage1 :: jsval
  stage2 :: jsval
  stage3 :: jsval
  metadata :: jsval
  loading :: "loading_flags option"

text \<open>
  The open conversation: \<^verbatim>\<open>id\<close>, \<^verbatim>\<open>title\<close>, \<^verbatim>\<open>messages\<close>, and whatever other properties
  the server sent with it.
\<close>

record conversation = conv_head +
  messages :: "addr list"
  other_props :: "(string \<times> jsval) list"

text \<open>
  What a handler does besides setting state: a call of \<^verbatim>\<open>loadConversations()\<close>, which
  is not awaited, and a line on the console (its label and its value).
\<close>

datatype effect = LoadConversations | Console string jsval

record app_state =
  heap :: "message list"
  conversations :: "summary list"
  currentConversationId :: "string option"
  currentConversation :: "conversation option"
  isLoading :: bool
  sendError :: jsval
  effects :: "effect list"

text \<open>
  The three lines every stage updater starts with, and its \<^verbatim>\<open>return\<close>: the last message
  of the copied array is changed by \<open>f\<close>, in the store. Reading \<^verbatim>\<open>prev.messages\<close> of
  \<^verbatim>\<open>null\<close>, or a property of the \<^verbatim>\<open>undefined\<close> that the last element of an empty
  array is, is a TypeError. (An address outside the store does not arise; it is an
  error here.)
\<close>

definition at_lastMsg :: "(message \<Rightarrow> error + message) \<Rightarrow> app_state \<Rightarrow> error + app_state" where
  "at_lastMsg f s =
     (case currentConversation s of
        None \<Rightarrow> Inl TypeError
      | Some prev \<Rightarrow>
          let msgs = messages prev in
          if msgs = [] \<or> length (heap s) \<le> last msgs then Inl TypeError
          else
            (case f (heap s ! last msgs) of
               Inl e \<Rightarrow> Inl e
             | Inr lastMsg \<Rightarrow>
                 Inr (s\<lparr>heap := (heap s)[last msgs := lastMsg],
                        currentConversation := Some (prev\<lparr>messages := msgs\<rparr>)\<rparr>)))"

text \<open>\<^verbatim>\<open>lastMsg.loading.stageN = b\<close>: a TypeError when the message has no \<^verbatim>\<open>loading\<close>.\<close>

definition set_loading :: "(loading_flags \<Rightarrow> loading_flags) \<Rightarrow> message \<Rightarrow> error + message" where
  "set_loading g m =
     (case loading m of None \<Rightarrow> Inl TypeError | Some l \<Rightarrow> Inr (m\<lparr>loading := Some (g l)\<rparr>))"

definition bind_err :: "error + 'a \<Rightarrow> ('a \<Rightarrow> error + 'b) \<Rightarrow> error + 'b" where
  "bind_err r f = (case r of Inl e \<Rightarrow> Inl e | Inr x \<Rightarrow> f x)"

text \<open>
  The callback \<^verbatim>\<open>(eventType, event) => { switch (eventType) ... }\<close> (the same text in
  both revisions), with the state updaters it queues applied. \<open>Inl\<close> is a TypeError
  raised by the callback or by an updater.
\<close>

definition onEvent :: "jsval \<Rightarrow> jsval \<Rightarrow> app_state \<Rightarrow> error + app_state" where
  "onEvent eventType event s =
     (if eventType = Str ''stage1_start'' then
        at_lastMsg (set_loading (\<lambda>l. l\<lparr>loading_stage1 := True\<rparr>)) s
      else if eventType = Str ''stage1_complete'' then
        at_lastMsg (\<lambda>lastMsg.
          bind_err (get_prop ''data'' event) (\<lambda>d.
            set_loading (\<lambda>l. l\<lparr>loading_stage1 := False\<rparr>) (lastMsg\<lparr>stage1 := d\<rparr>))) s
      else if eventType = Str ''stage2_start'' then
        at_lastMsg (set_loading (\<lambda>l. l\<lparr>loading_stage2 := True\<rparr>)) s
      else if eventType = Str ''stage2_complete'' then
        at_lastMsg (\<lambda>lastMsg.
          bind_err (get_prop ''data'' event) (\<lambda>d.
          bind_err (get_prop ''metadata'' event) (\<lambda>md.
            set_loading (\<lambda>l. l\<lparr>loading_stage2 := False\<rparr>)
              (lastMsg\<lparr>stage2 := d, metadata := md\<rparr>)))) s
      else if eventType = Str ''stage3_start'' then
        at_lastMsg (set_loading (\<lambda>l. l\<lparr>loading_stage3 := True\<rparr>)) s
      else if eventType = Str ''stage3_complete'' then
        at_lastMsg (\<lambda>lastMsg.
          bind_err (get_prop ''data'' event) (\<lambda>d.
            set_loading (\<lambda>l. l\<lparr>loading_stage3 := False\<rparr>) (lastMsg\<lparr>stage3 := d\<rparr>))) s
      else if eventType = Str ''title_complete'' then
        Inr (s\<lparr>effects := effects s @ [LoadConversations]\<rparr>)
      else if eventType = Str ''complete'' then
        Inr (s\<lparr>effects := effects s @ [LoadConversations], isLoading := False\<rparr>)
      else if eventType = Str ''error'' then
        bind_err (get_prop ''message'' event) (\<lambda>msg.
          Inr (s\<lparr>effects := effects s @ [Console ''Stream error:'' msg],
                 sendError :=
                   js_or msg (Str ''Failed to send message. Check API key in Settings.''),
                 isLoading := False\<rparr>))
      else
        Inr (s\<lparr>effects := effects s @ [Console ''Unknown event type:'' eventType]\<rparr>))"


text \<open>
  The start of \<^verbatim>\<open>handleSendMessage\<close>: the updater that makes sure there is a
  conversation object, and the two optimistic appends.
\<close>

definition ensure_conversation :: "string \<Rightarrow> app_state \<Rightarrow> app_state" where
  "ensure_conversation i s =
     (case currentConversation s of
        Some prev \<Rightarrow> s
      | None \<Rightarrow>
          let fallbackTitle =
                str_or (case find (\<lambda>c. conv_id c = i) (conversations s) of
                          None \<Rightarrow> []
                        | Some c \<Rightarrow> title c)
                  ''New Conversation''
          in s\<lparr>currentConversation :=
                 Some \<lparr>conv_id = i, title = fallbackTitle, messages = [], other_props = []\<rparr>\<rparr>)"

definition userMessage :: "string \<Rightarrow> message" where
  "userMessage c =
     \<lparr>role = ''user'', content = Str c, stage1 = Undefined, stage2 = Undefined,
      stage3 = Undefined, metadata = Undefined, loading = None\<rparr>"

definition assistantMessage :: message where
  "assistantMessage =
     \<lparr>role = ''assistant'', content = Undefined, stage1 = Null, stage2 = Null, stage3 = Null,
      metadata = Null,
      loading = Some \<lparr>loading_stage1 = False, loading_stage2 = False, loading_stage3 = False\<rparr>\<rparr>"

definition append_message :: "message \<Rightarrow> app_state \<Rightarrow> error + app_state" where
  "append_message m s =
     (case currentConversation s of
        None \<Rightarrow> Inl TypeError
      | Some prev \<Rightarrow>
          Inr (s\<lparr>heap := heap s @ [m],
                 currentConversation :=
                   Some (prev\<lparr>messages := messages prev @ [length (heap s)]\<rparr>)\<rparr>))"






text \<open>
  \<^verbatim>\<open>handleSendMessage(content)\<close> against a given behaviour of the network: the state
  when the handler has finished, or the TypeError of an updater. \<open>optimistic\<close> is the
  two appends before the request. The fallback title is looked up in the
  \<^verbatim>\<open>conversations\<close> of the render, before \<^verbatim>\<open>markConversationInteracted\<close> re-sorts them.
\<close>

definition optimistic :: "string \<Rightarrow> app_state \<Rightarrow> error + app_state" where
  "optimistic c s =
     bind_err (append_message (userMessage c) s) (append_message assistantMessage)"



text \<open>The initial values of the state, as \<^verbatim>\<open>useState\<close> receives them.\<close>

definition init_app :: app_state where
  "init_app =
     \<lparr>heap = [], conversations = [], currentConversationId = None,
      currentConversation = None, isLoading = False, sendError = Str [], effects = []\<rparr>"

text \<open>The event types with a \<^verbatim>\<open>case\<close> in the switch, and those among them of a stage.\<close>

definition handled_types :: "string list" where
  "handled_types =
     [''stage1_start'', ''stage1_complete'', ''stage2_start'', ''stage2_complete'',
      ''stage3_start'', ''stage3_complete'', ''title_complete'', ''complete'', ''error'']"

definition stage_types :: "string list" where
  "stage_types =
     [''stage1_start'', ''stage1_complete'', ''stage2_start'', ''stage2_complete'',
      ''stage3_start'', ''stage3_complete'']"

text \<open>
  The situation the stage updaters are written for: the conversation \<open>prev\<close> is open and
  its last message is the object \<open>m\<close>, which has \<^verbatim>\<open>loading\<close> flags \<open>l\<close> (the assistant
  message in progress). \<open>store_last\<close> writes a new value into that object.
\<close>

definition in_progress :: "app_state \<Rightarrow> conversation \<Rightarrow> message \<Rightarrow> loading_flags \<Rightarrow> bool" where
  "in_progress s prev m l =
     (currentConversation s = Some prev \<and> messages prev \<noteq> []
      \<and> last (messages prev) < length (heap s)
      \<and> heap s ! last (messages prev) = m \<and> loading m = Some l)"

definition store_last :: "app_state \<Rightarrow> conversation \<Rightarrow> message \<Rightarrow> app_state" where
  "store_last s prev m = s\<lparr>heap := (heap s)[last (messages prev) := m]\<rparr>"



text \<open>
  No message object occurs twice in the open conversation, and each is in the store.
  This holds of a conversation that comes out of \<^verbatim>\<open>response.json()\<close>, and the handler
  keeps it.
\<close>

definition wf_state :: "app_state \<Rightarrow> bool" where
  "wf_state s =
     (case currentConversation s of
        None \<Rightarrow> True
      | Some c \<Rightarrow> distinct (messages c) \<and> (\<forall>a \<in> set (messages c). a < length (heap s)))"


text \<open>
  The state while the first question of the conversation \<^verbatim>\<open>c1\<close> is being answered, and
  a \<^verbatim>\<open>stage2_complete\<close> event.
\<close>

definition sending_state :: app_state where
  "sending_state =
     \<lparr>heap = [userMessage ''hi'', assistantMessage], conversations = [],
      currentConversationId = Some ''c1'',
      currentConversation =
        Some \<lparr>conv_id = ''c1'', title = ''New Conversation'', messages = [0, 1],
              other_props = []\<rparr>,
      isLoading = True, sendError = Str [], effects = []\<rparr>"

definition ranking_event :: jsval where
  "ranking_event =
     Obj [(''type'', Str ''stage2_complete''),
          (''data'', Arr [Obj [(''model'', Str ''m1''), (''ranking'', Str ''1. Response A'')]]),
          (''metadata'',
             Obj [(''label_to_model'', Obj [(''Response A'', Str ''m1'')]),
                  (''aggregate_rankings'', Arr [])])]"


section \<open>The deliberation engine (from the specification)\<close>

text \<open>
  The sources hold the front end only. The session and the Stage 2 aggregator of the
  back end are taken from the specification (sections 2, 4.4, 4.6, 5, 6 and 7).
\<close>

text \<open>
  Modelled from the spec: the events of the Deliberation Session (the table of section
  6), by their type; the payloads play no part in the order.
\<close>

datatype deliberation_event =
    Stage1Start | Stage1Complete | Stage2Start | Stage2Complete
  | Stage3Start | Stage3Complete | TitleComplete | Complete | Error

text \<open>
  Modelled from the spec: the states of the Deliberation Session (section 4.6), with the
  terminal \<open>Cancelled\<close> of section 5.
\<close>

datatype session_state =
  Idle | Stage1Running | Stage2Running | Stage3Running | Completed | Errored | Cancelled

definition running :: "session_state \<Rightarrow> bool" where
  "running q = (q = Stage1Running \<or> q = Stage2Running \<or> q = Stage3Running)"

text \<open>
  Modelled from the spec: the transitions of the Deliberation Session, each with the
  events it emits. The session emits the start event of a stage when it enters it and
  the complete event when the stage is done; after Stage 3 it emits the terminal
  \<^verbatim>\<open>complete\<close>, with \<^verbatim>\<open>title_complete\<close> before it when a title was generated. A fatal
  failure in any running state (no Stage 1 success, a chairman failure, an internal
  fault) emits a single \<^verbatim>\<open>error\<close> and ends the stream; a cancellation in any running
  state emits nothing more.
\<close>

inductive step :: "session_state \<Rightarrow> deliberation_event list \<Rightarrow> session_state \<Rightarrow> bool" where
  begin_run: "step Idle [Stage1Start] Stage1Running"
| stage1_done: "step Stage1Running [Stage1Complete, Stage2Start] Stage2Running"
| stage2_done: "step Stage2Running [Stage2Complete, Stage3Start] Stage3Running"
| stage3_done: "step Stage3Running [Stage3Complete, Complete] Completed"
| stage3_done_titled: "step Stage3Running [Stage3Complete, TitleComplete, Complete] Completed"
| failed: "running q \<Longrightarrow> step q [Error] Errored"
| cancelled: "running q \<Longrightarrow> step q [] Cancelled"

text \<open>
  Modelled from the spec: a run of the session, from \<open>Idle\<close>: the state reached and the
  events emitted so far, in the order of emission.
\<close>

inductive run :: "session_state \<Rightarrow> deliberation_event list \<Rightarrow> bool" where
  idle: "run Idle []"
| next_step: "run q evs \<Longrightarrow> step q out q' \<Longrightarrow> run q' (evs @ out)"

code_pred step .

code_pred run .

text \<open>The events of each stage, and the terminal events.\<close>

definition is_stage1 :: "deliberation_event \<Rightarrow> bool" where
  "is_stage1 e = (e = Stage1Start \<or> e = Stage1Complete)"

definition is_stage2 :: "deliberation_event \<Rightarrow> bool" where
  "is_stage2 e = (e = Stage2Start \<or> e = Stage2Complete)"

definition is_stage3 :: "deliberation_event \<Rightarrow> bool" where
  "is_stage3 e = (e = Stage3Start \<or> e = Stage3Complete)"

definition is_terminal :: "deliberation_event \<Rightarrow> bool" where
  "is_terminal e = (e = Complete \<or> e = Error)"

text \<open>Every event that is a \<open>P\<close> comes before every event that is a \<open>Q\<close>.\<close>

definition precedes :: "('a \<Rightarrow> bool) \<Rightarrow> ('a \<Rightarrow> bool) \<Rightarrow> 'a list \<Rightarrow> bool" where
  "precedes P Q evs =
     (\<forall>i < length evs. \<forall>j < length evs. P (evs ! i) \<and> Q (evs ! j) \<longrightarrow> i < j)"

text \<open>
  The place of an event in a run, and how far a state has come; they serve the proof
  of the order.
\<close>

fun phase :: "deliberation_event \<Rightarrow> nat" where
  "phase Stage1Start = 1"
| "phase Stage1Complete = 1"
| "phase Stage2Start = 2"
| "phase Stage2Complete = 2"
| "phase Stage3Start = 3"
| "phase Stage3Complete = 3"
| "phase TitleComplete = 4"
| "phase Complete = 5"
| "phase Error = 5"

fun reached :: "session_state \<Rightarrow> nat" where
  "reached Idle = 0"
| "reached Stage1Running = 1"
| "reached Stage2Running = 2"
| "reached Stage3Running = 3"
| "reached Completed = 5"
| "reached Errored = 5"
| "reached Cancelled = 3"

text \<open>
  Modelled from the spec: the Stage 2 aggregator (section 4.4). A ranking is valid when
  it is a permutation of the visible labels. In a valid ranking of k labels the first
  gets k - 1 points, the second k - 2, the last 0; the points of a label are summed over
  the valid rankings; the labels are sorted by falling total, and by rising label among
  equal totals. When no ranking is valid the aggregate is the stable Stage 1 order of
  the labels.
\<close>

definition valid_ranking :: "'l list \<Rightarrow> 'l list \<Rightarrow> bool" where
  "valid_ranking labels r = (distinct r \<and> set r = set labels)"

text \<open>
  Modelled from the spec: the tolerant parser is a parameter (text to ordered labels,
  or a parse failure); a text that does not give a valid ranking is that model's
  recoverable failure.
\<close>

definition checked :: "(string \<Rightarrow> 'l list option) \<Rightarrow> 'l list \<Rightarrow> string \<Rightarrow> 'l list option" where
  "checked parse labels text =
     (case parse text of
        None \<Rightarrow> None
      | Some r \<Rightarrow> if valid_ranking labels r then Some r else None)"

text \<open>Modelled from the spec: the Borda points of a label in one ranking, and its total.\<close>

fun borda_points :: "'l list \<Rightarrow> 'l \<Rightarrow> nat" where
  "borda_points [] l = 0"
| "borda_points (x # xs) l = (if l = x then length xs else borda_points xs l)"

definition total_score :: "'l list list \<Rightarrow> 'l \<Rightarrow> nat" where
  "total_score rankings l = sum_list (map (\<lambda>r. borda_points r l) rankings)"

text \<open>Modelled from the spec: the sort by falling total and rising label.\<close>

definition borda_order :: "('l::linorder) list list \<Rightarrow> 'l list \<Rightarrow> 'l list" where
  "borda_order rankings labels =
     sort_key (\<lambda>l. (- int (total_score rankings l), l)) labels"

text \<open>Modelled from the spec: the aggregate ranking, with its documented fallback.\<close>

definition aggregate :: "('l::linorder) list list \<Rightarrow> 'l list \<Rightarrow> 'l list" where
  "aggregate rankings labels = (if rankings = [] then labels else borda_order rankings labels)"

text \<open>
  Modelled from the spec: the outcome of a stage, fatal or not, and the output of
  Stage 2: the aggregate ranking, each model's ranking or failure, and the map from
  labels to models.
\<close>

datatype 'a stage_outcome = Fatal | Finished 'a

record ('l, 'm) stage2_output =
  aggregate_ranking :: "'l list"
  individual_rankings :: "('m \<times> 'l list option) list"
  label_to_model :: "('l \<times> 'm) list"

text \<open>
  Modelled from the spec: Stage 2, given the labels assigned to the successful Stage 1
  models (in the stable order) and the text each ranking model returned. No failure of
  a ranking model is fatal to the stage.
\<close>

definition stage2_aggregator ::
  "(string \<Rightarrow> ('l::linorder) list option) \<Rightarrow> ('l \<times> 'm) list \<Rightarrow> ('m \<times> string) list
     \<Rightarrow> ('l, 'm) stage2_output stage_outcome" where
  "stage2_aggregator parse assignment outputs =
     (let labels = map fst assignment;
          each = map (\<lambda>(model, text). (model, checked parse labels text)) outputs
      in Finished
           \<lparr>aggregate_ranking = aggregate (List.map_filter snd each) labels,
            individual_rankings = each,
            label_to_model = assignment\<rparr>)"

text \<open>A parser that knows one text, for the examples.\<close>

definition example_ranking_parse :: "string \<Rightarrow> char list option" where
  "example_ranking_parse = map_of [(''B > A'', ''BA'')]"

section \<open>Council settings: proofs\<close>

lemma first_or_empty_mem: "models \<noteq> [] \<Longrightarrow> first_or_empty models \<in> set models"
  by (cases models) (auto simp: first_or_empty_def str_or_def)

lemma first_or_empty_Nil: "first_or_empty [] = []"
  by (simp add: first_or_empty_def)

lemma first_or_empty_Cons: "first_or_empty (m # ms) = m"
  by (simp add: first_or_empty_def str_or_def)

lemma toggle_at_cap:
  assumes "length (council_models prev) = 4" and "model \<notin> set (council_models prev)"
  shows "handleToggleModel model prev = prev"
  using assms by (simp add: handleToggleModel_def)

lemma save_rejects:
  assumes "council_models (settingsForm s) = [] \<or> 4 < length (council_models (settingsForm s))"
  shows "snd (handleSaveSettings srv s) = []
         \<and> settingsError (fst (handleSaveSettings srv s)) \<noteq> []"
  using assms by (auto simp: handleSaveSettings_def Let_def)

lemma save_rejects_App:
  assumes "council_models (settingsForm s) = [] \<or> 4 < length (council_models (settingsForm s))"
  shows "snd (handleSaveSettings_App reply s) = []
         \<and> settingsError (fst (handleSaveSettings_App reply s)) \<noteq> []"
  using assms by (auto simp: handleSaveSettings_App_def Let_def)

lemma save_first:
  assumes "snd (handleSaveSettings srv s) = call # rest"
  shows "saved_models call = Some (council_models (settingsForm s))
         \<and> 1 \<le> length (council_models (settingsForm s))
         \<and> length (council_models (settingsForm s)) \<le> 4"
  using assms
  by (auto simp: handleSaveSettings_def Let_def Suc_le_eq
        split: if_splits awaited.splits prod.splits option.splits)

lemma save_first_App:
  assumes "call \<in> set (snd (handleSaveSettings_App reply s))"
  shows "saved_models call = Some (council_models (settingsForm s))
         \<and> 1 \<le> length (council_models (settingsForm s))
         \<and> length (council_models (settingsForm s)) \<le> 4"
  using assms
  by (auto simp: handleSaveSettings_App_def Let_def Suc_le_eq split: if_splits awaited.splits)

lemma resave_loop_sent: "set (fst (resave_loop reply calls)) \<subseteq> set calls"
  by (induction calls) (auto split: awaited.splits prod.splits)

lemma resave_loop_in:
  assumes "resave_loop reply calls = (sent, thrown)" and "c \<in> set sent"
  shows "c \<in> set calls"
  using assms resave_loop_sent [of reply calls] by auto

text \<open>
  Whatever the old chairman was, the rule \<^verbatim>\<open>next.includes(chair) ? chair : next[0] || ''\<close>
  gives a member of the new list.
\<close>

lemma chair_is_member_pick:
  "chair_is_member
     (f\<lparr>council_models := ms,
        chairman_model := (if c \<in> set ms then c else first_or_empty ms)\<rparr>)"
  by (cases "ms = []") (simp_all add: chair_is_member_def first_or_empty_mem)

lemma toggle_establishes:
  assumes "\<not> (model \<notin> set (council_models prev) \<and> 4 \<le> length (council_models prev))"
  shows "chair_is_member (handleToggleModel model prev)"
  using assms unfolding handleToggleModel_def Let_def
  by (simp only: chair_is_member_pick if_False)

lemma toggle_preserves:
  assumes "chair_is_member prev"
  shows "chair_is_member (handleToggleModel model prev)"
proof (cases "model \<notin> set (council_models prev) \<and> 4 \<le> length (council_models prev)")
  case True
  then have "handleToggleModel model prev = prev"
    by (simp add: handleToggleModel_def)
  with assms show ?thesis by simp
next
  case False
  then show ?thesis by (rule toggle_establishes)
qed

lemma trim_council_establishes:
  assumes "model \<in> set (council_models c)"
  shows "chair_is_member (trim_council model c)"
  using assms unfolding trim_council_def Let_def
  by (simp only: simp_thms if_False chair_is_member_pick)

lemma trim_council_preserves:
  assumes "chair_is_member c"
  shows "chair_is_member (trim_council model c)"
proof (cases "model \<in> set (council_models c)")
  case True
  then show ?thesis by (rule trim_council_establishes)
next
  case False
  then have "trim_council model c = c"
    by (simp add: trim_council_def)
  with assms show ?thesis by simp
qed

lemma remove_establishes:
  assumes "\<not> blocked model s"
  shows "chair_is_member (settingsForm (handleRemoveModel model s))"
  using assms unfolding handleRemoveModel_def Let_def blocked_def
  by (simp add: chair_is_member_pick)

lemma remove_blocked:
  assumes "blocked model s"
  shows "settingsForm (handleRemoveModel model s) = settingsForm s"
    and "councils (handleRemoveModel model s) = councils s"
  using assms unfolding handleRemoveModel_def Let_def blocked_def
  by auto

lemma remove_preserves_form:
  assumes "chair_is_member (settingsForm s)"
  shows "chair_is_member (settingsForm (handleRemoveModel model s))"
  using assms remove_blocked(1) remove_establishes by (cases "blocked model s") auto

lemma remove_preserves_councils:
  assumes "\<forall>c \<in> set (councils s). chair_is_member c"
  shows "\<forall>c \<in> set (councils (handleRemoveModel model s)). chair_is_member c"
  using assms
  by (auto simp: handleRemoveModel_def Let_def trim_council_preserves split: option.splits)

lemma select_councils: "councils (handleSelectEditingCouncil k s) = councils s"
  by (simp add: handleSelectEditingCouncil_def split: option.splits)

lemma select_preserves_form:
  assumes "\<forall>c \<in> set (councils s). chair_is_member c" and "chair_is_member (settingsForm s)"
  shows "chair_is_member (settingsForm (handleSelectEditingCouncil k s))"
proof (cases "find (\<lambda>c. key c = k) (councils s)")
  case None
  with assms(2) show ?thesis by (simp add: handleSelectEditingCouncil_def)
next
  case (Some council)
  then have "council \<in> set (councils s)"
    by (auto simp: find_Some_iff)
  with assms(1) have "chair_is_member council" by blast
  with Some show ?thesis
    by (simp add: handleSelectEditingCouncil_def chair_is_member_def)
qed

lemma filter_absent: "model \<notin> set ms \<Longrightarrow> filter (\<lambda>m. m \<noteq> model) ms = ms"
  by (induction ms) auto

lemma remove_chairman:
  assumes "\<not> blocked model s" and "chairman_model (settingsForm s) = model"
  shows "chairman_model (settingsForm (handleRemoveModel model s)) =
           first_or_empty (filter (\<lambda>m. m \<noteq> model) (council_models (settingsForm s)))"
  using assms unfolding handleRemoveModel_def Let_def blocked_def
  by (simp add: filter_absent)

lemma first_or_empty_cases:
  "first_or_empty ms = (case ms of [] \<Rightarrow> [] | m # _ \<Rightarrow> m)"
  by (simp add: first_or_empty_def str_or_def split: list.splits)

lemma toggle_chairman_off:
  assumes "chairman_model prev = model" and "model \<in> set (council_models prev)"
  shows "chairman_model (handleToggleModel model prev) =
           first_or_empty (filter (\<lambda>m. m \<noteq> model) (council_models prev))"
  using assms by (simp add: handleToggleModel_def Let_def)

text \<open>
  What the checks of the edit form give. With four models selected,
  \<^verbatim>\<open>handleToggleModel\<close> on a model that is not selected returns the form it was given.
  \<^verbatim>\<open>handleSaveSettings\<close> (either revision), on an empty selection or on one of more than
  four models, sets an error message and issues no request. The first request of the
  revision with named councils, and the one request of the other, carries the member
  list of the form, of between one and four members.
\<close>

theorem form_size_checked:
  "(length (council_models prev) = 4 \<and> model \<notin> set (council_models prev)
      \<longrightarrow> handleToggleModel model prev = prev)
   \<and> (council_models (settingsForm s) = [] \<or> 4 < length (council_models (settingsForm s))
      \<longrightarrow> snd (handleSaveSettings srv s) = []
          \<and> settingsError (fst (handleSaveSettings srv s)) \<noteq> []
          \<and> snd (handleSaveSettings_App reply s) = []
          \<and> settingsError (fst (handleSaveSettings_App reply s)) \<noteq> [])
   \<and> (snd (handleSaveSettings srv s) = call # rest
        \<or> call \<in> set (snd (handleSaveSettings_App reply s))
      \<longrightarrow> saved_models call = Some (council_models (settingsForm s))
          \<and> 1 \<le> length (council_models (settingsForm s))
          \<and> length (council_models (settingsForm s)) \<le> 4)"
  using toggle_at_cap [of prev model] save_rejects [of s srv] save_rejects_App [of s reply]
    save_first [of srv s call rest] save_first_App [of call reply s]
  by blast

theorem form_size_checked_witness:
  "handleToggleModel ''e'' \<lparr>council_models = [''a'', ''b'', ''c'', ''d''], chairman_model = ''a''\<rparr>
     = \<lparr>council_models = [''a'', ''b'', ''c'', ''d''], chairman_model = ''a''\<rparr>
   \<and> council_models (settingsForm init_settings) = []
   \<and> handleSaveSettings accepting_server init_settings =
        (init_settings\<lparr>settingsError := ''Select at least one council member (max 4).''\<rparr>, [])
   \<and> handleSaveSettings_App (Throws []) init_settings =
        (init_settings\<lparr>settingsError := ''Select at least one council member (max 4).''\<rparr>, [])
   \<and> snd (handleSaveSettings (accepting_server\<lparr>saved_reply := Throws []\<rparr>) two_member_state) =
        [UpdateCouncil ''k'' ''General'' [''a'', ''b''] ''a'']
   \<and> handleSaveSettings_App (Throws []) two_member_state =
        (two_member_state\<lparr>settingsError := ''Failed to save settings.''\<rparr>,
         [UpdateSettings Null [''a'', ''b''] ''a'' None])
   \<and> saved_models (UpdateCouncil ''k'' ''General'' [''a'', ''b''] ''a'') = Some [''a'', ''b'']"
  using form_size_checked
          [of "\<lparr>council_models = [''a'', ''b'', ''c'', ''d''], chairman_model = ''a''\<rparr>" "''e''"
              init_settings accepting_server "Throws []"]
        form_size_checked
          [of "\<lparr>council_models = [], chairman_model = []\<rparr>" "''e''" two_member_state
              "accepting_server\<lparr>saved_reply := Throws []\<rparr>" "Throws []"
              "UpdateCouncil ''k'' ''General'' [''a'', ''b''] ''a''" "[]"]
  by (simp add: handleToggleModel_def handleSaveSettings_def handleSaveSettings_App_def
        init_settings_def two_member_state_def accepting_server_def catch_save_def
        trim_def is_ws_def str_or_def)

text \<open>
  C4, as the code has it. Each of the three editing operations keeps the chairman a
  member: if the chairman of the edit form and of every stored council is one of its
  members (or it has none) before, the same holds after. \<^verbatim>\<open>handleToggleModel\<close>, unless
  the cap of four makes it return the form unchanged, and \<^verbatim>\<open>handleRemoveModel\<close>, unless
  another council blocks the removal, make the chairman of the edit form a member
  whatever it was before. Removing or toggling off the model that is the chairman hands
  the chair to the first remaining member, or to the empty string when none remains.
  \<^verbatim>\<open>handleSelectEditingCouncil\<close> copies the two fields of the stored council as they
  are.
\<close>

theorem chairman_membership_preserved:
  "(chair_is_member prev \<longrightarrow> chair_is_member (handleToggleModel model prev))
   \<and> (\<not> (model \<notin> set (council_models prev) \<and> 4 \<le> length (council_models prev))
        \<longrightarrow> chair_is_member (handleToggleModel model prev))
   \<and> (chairman_model prev = model \<and> model \<in> set (council_models prev)
        \<longrightarrow> chairman_model (handleToggleModel model prev) =
              (case filter (\<lambda>m. m \<noteq> model) (council_models prev) of
                 [] \<Rightarrow> [] | m # _ \<Rightarrow> m))
   \<and> (chair_is_member (settingsForm s)
        \<longrightarrow> chair_is_member (settingsForm (handleRemoveModel model s)))
   \<and> (\<not> blocked model s \<longrightarrow> chair_is_member (settingsForm (handleRemoveModel model s)))
   \<and> ((\<forall>c \<in> set (councils s). chair_is_member c)
        \<longrightarrow> (\<forall>c \<in> set (councils (handleRemoveModel model s)). chair_is_member c))
   \<and> (\<not> blocked model s \<and> chairman_model (settingsForm s) = model
        \<longrightarrow> chairman_model (settingsForm (handleRemoveModel model s)) =
              (case filter (\<lambda>m. m \<noteq> model) (council_models (settingsForm s)) of
                 [] \<Rightarrow> [] | m # _ \<Rightarrow> m))
   \<and> ((\<forall>c \<in> set (councils s). chair_is_member c) \<and> chair_is_member (settingsForm s)
        \<longrightarrow> chair_is_member (settingsForm (handleSelectEditingCouncil k s))
            \<and> councils (handleSelectEditingCouncil k s) = councils s)
   \<and> (find (\<lambda>c. key c = k) (councils s) = Some council
        \<longrightarrow> council_models (settingsForm (handleSelectEditingCouncil k s)) = council_models council
            \<and> chairman_model (settingsForm (handleSelectEditingCouncil k s)) = chairman_model council)"
proof -
  have "find (\<lambda>c. key c = k) (councils s) = Some council
        \<longrightarrow> council_models (settingsForm (handleSelectEditingCouncil k s)) = council_models council
            \<and> chairman_model (settingsForm (handleSelectEditingCouncil k s)) = chairman_model council"
    by (simp add: handleSelectEditingCouncil_def)
  then show ?thesis
    using toggle_preserves [of prev model] toggle_establishes [of model prev]
      toggle_chairman_off [of prev model] remove_preserves_form [of s model]
      remove_establishes [of model s] remove_preserves_councils [of s model]
      remove_chairman [of model s] select_preserves_form [of s k] select_councils [of k s]
    unfolding first_or_empty_cases
    by blast
qed

theorem chairman_membership_preserved_witness:
  "chair_is_member (settingsForm two_member_state)
   \<and> (\<forall>c \<in> set (councils two_member_state). chair_is_member c) = True
   \<and> blocked ''a'' two_member_state = False
   \<and> handleToggleModel ''a'' (settingsForm two_member_state)
        = \<lparr>council_models = [''b''], chairman_model = ''b''\<rparr>
   \<and> settingsForm (handleRemoveModel ''a'' two_member_state)
        = \<lparr>council_models = [''b''], chairman_model = ''b''\<rparr>
   \<and> councils (handleRemoveModel ''a'' two_member_state)
        = [\<lparr>council_models = [''b''], chairman_model = ''b'', key = ''k'', name = ''K''\<rparr>]
   \<and> settingsForm (handleSelectEditingCouncil ''k'' two_member_state)
        = \<lparr>council_models = [''a'', ''b''], chairman_model = ''a''\<rparr>
   \<and> chair_is_member (settingsForm (handleRemoveModel ''a'' two_member_state))
   \<and> chair_is_member (settingsForm (handleSelectEditingCouncil ''k'' two_member_state))"
  using chairman_membership_preserved
          [of "settingsForm two_member_state" "''a''" two_member_state "''k''"
              "\<lparr>council_models = [''a'', ''b''], chairman_model = ''a'',
                key = ''k'', name = ''K''\<rparr>"]
  by (simp add: two_member_state_def init_settings_def chair_is_member_def blocked_def
        handleToggleModel_def handleRemoveModel_def handleSelectEditingCouncil_def
        trim_council_def first_or_empty_def str_or_def Let_def)

text \<open>
  C4 as stated fails where the state before the operation did not have the property:
  selecting a stored council whose chairman is empty (the case the \<^verbatim>\<open>|| ''\<close> of the
  handler and the chairman check of \<^verbatim>\<open>handleSaveSettings\<close> provide for) puts a form on
  screen whose chairman is not a member, and a toggle refused by the cap leaves a
  chairman that is not a member in place.
\<close>

theorem chairman_membership_counterexample:
  "\<not> chair_is_member
       (settingsForm
          (handleSelectEditingCouncil ''k''
             (init_settings
                \<lparr>councils := [\<lparr>council_models = [''a''], chairman_model = [],
                                key = ''k'', name = ''K''\<rparr>]\<rparr>)))
   \<and> \<not> chair_is_member
         (handleToggleModel ''e''
            \<lparr>council_models = [''a'', ''b'', ''c'', ''d''], chairman_model = ''z''\<rparr>)"
  by (simp add: init_settings_def chair_is_member_def handleSelectEditingCouncil_def
        handleToggleModel_def)

text \<open>
  The loop over the dirty councils sends each council as it is stored: the requests
  are updates of stored councils, with the stored name, members and chairman, and
  the checks of the form are not applied to them.
\<close>

theorem resave_sends_stored:
  assumes "call \<in> set (resave_requests s savedKey)"
  shows "\<exists>council \<in> set (councils s).
           call = UpdateCouncil (key council) (name council) (council_models council)
                    (chairman_model council)
           \<and> key council \<in> set (dirtyCouncils s)
           \<and> key council \<noteq> str_or savedKey (editingCouncilKey s)"
proof -
  from assms obtain k council where k: "k \<in> set (dirtyCouncils s)"
      "k \<noteq> str_or savedKey (editingCouncilKey s)"
    and found: "find (\<lambda>c. key c = k) (councils s) = Some council"
    and call: "call = UpdateCouncil k (name council) (council_models council)
                        (chairman_model council)"
    by (auto simp: resave_requests_def Let_def map_filter_def split: option.splits)
  from found have "council \<in> set (councils s)" and "key council = k"
    by (auto simp: find_Some_iff)
  with k call show ?thesis by blast
qed

lemma emptied_state:
  "handleSelectEditingCouncil ''b'' (handleRemoveModel ''m1'' two_council_state) =
     init_settings
       \<lparr>councils := [\<lparr>council_models = [], chairman_model = [], key = ''a'', name = ''A''\<rparr>,
                     \<lparr>council_models = [''m2''], chairman_model = ''m2'',
                       key = ''b'', name = ''B''\<rparr>],
        editingCouncilKey := ''b'',
        editingCouncilName := ''B'',
        availableModels := [''m2''],
        dirtyCouncils := [''a''],
        settingsForm := \<lparr>council_models = [''m2''], chairman_model = ''m2''\<rparr>\<rparr>"
  by (simp add: two_council_state_def init_settings_def handleRemoveModel_def
        handleSelectEditingCouncil_def trim_council_def first_or_empty_def set_add_def
        Let_def)

theorem resave_sends_stored_witness:
  "resave_requests
       (handleSelectEditingCouncil ''b'' (handleRemoveModel ''m1'' two_council_state)) ''b''
     = [UpdateCouncil ''a'' ''A'' [] []]
   \<and> dirtyCouncils
         (handleSelectEditingCouncil ''b'' (handleRemoveModel ''m1'' two_council_state))
     = [''a'']"
proof -
  let ?s = "handleSelectEditingCouncil ''b'' (handleRemoveModel ''m1'' two_council_state)"
  have loop: "resave_requests ?s ''b'' = [UpdateCouncil ''a'' ''A'' [] []]"
    unfolding emptied_state
    by (simp add: resave_requests_def init_settings_def str_or_def map_filter_simps)
  have dirty: "dirtyCouncils ?s = [''a'']"
    unfolding emptied_state by (simp add: init_settings_def)
  have "UpdateCouncil ''a'' ''A'' [] [] \<in> set (resave_requests ?s ''b'')"
    using loop by simp
  note resave_sends_stored [OF this]
  with loop dirty show ?thesis
    by blast
qed

lemma emptied_requests:
  "snd (handleSaveSettings accepting_server
          (handleSelectEditingCouncil ''b'' (handleRemoveModel ''m1'' two_council_state)))
     = [UpdateCouncil ''b'' ''B'' [''m2''] ''m2'',
        UpdateCouncil ''a'' ''A'' [] [],
        ListCouncils,
        UpdateSettings Null [''m2''] ''m2'' (Some [''m2''])]"
  unfolding emptied_state
  by (simp add: handleSaveSettings_def resave_requests_def map_filter_simps
        accepting_server_def init_settings_def trim_def is_ws_def str_or_def set_add_def)

text \<open>
  Every request of \<^verbatim>\<open>handleSaveSettings\<close>: the one that sends the member list of the
  form, the updates of the loop over the dirty councils, \<^verbatim>\<open>listCouncils\<close>, and the
  closing \<^verbatim>\<open>updateSettings\<close>. Only the first has passed the checks of the form.
\<close>

theorem save_requests_are:
  assumes "call \<in> set (snd (handleSaveSettings srv s))"
  shows "saved_models call = Some (council_models (settingsForm s))
         \<or> (\<exists>savedKey. call \<in> set (resave_requests s savedKey))
         \<or> call = ListCouncils
         \<or> (\<exists>api_key models chair available.
               call = UpdateSettings api_key models chair available)"
proof (cases "saved_reply srv")
  case (Throws error_message)
  with assms show ?thesis
    by (auto simp: handleSaveSettings_def Let_def split: if_splits)
next
  case (Resolves savedCouncil)
  obtain sent thrown where loop:
    "resave_loop (resave_reply srv)
       (resave_requests s (case savedCouncil of None \<Rightarrow> [] | Some c \<Rightarrow> key c))
     = (sent, thrown)"
    by (cases "resave_loop (resave_reply srv)
                 (resave_requests s (case savedCouncil of None \<Rightarrow> [] | Some c \<Rightarrow> key c))")
  from assms Resolves loop
  have "saved_models call = Some (council_models (settingsForm s))
        \<or> call \<in> set sent \<or> call = ListCouncils
        \<or> (\<exists>api_key models chair available.
              call = UpdateSettings api_key models chair available)"
    by (cases thrown; cases "list_reply srv"; cases "settings_reply srv")
       (auto simp: handleSaveSettings_def Let_def split: if_splits)
  with resave_loop_in [OF loop] show ?thesis
    by blast
qed

theorem save_requests_are_witness:
  "UpdateCouncil ''a'' ''A'' [] []
     \<in> set (snd (handleSaveSettings accepting_server
                   (handleSelectEditingCouncil ''b''
                      (handleRemoveModel ''m1'' two_council_state))))
   \<and> saved_models (UpdateCouncil ''a'' ''A'' [] []) \<noteq> Some [''m2'']
   \<and> UpdateCouncil ''a'' ''A'' [] []
       \<in> set (resave_requests
                (handleSelectEditingCouncil ''b'' (handleRemoveModel ''m1'' two_council_state))
                ''b'')"
proof -
  let ?s = "handleSelectEditingCouncil ''b'' (handleRemoveModel ''m1'' two_council_state)"
  have sent: "UpdateCouncil ''a'' ''A'' [] [] \<in> set (snd (handleSaveSettings accepting_server ?s))"
    unfolding emptied_requests by simp
  have loop: "resave_requests ?s ''b'' = [UpdateCouncil ''a'' ''A'' [] []]"
    unfolding emptied_state
    by (simp add: resave_requests_def init_settings_def str_or_def map_filter_simps)
  note save_requests_are [OF sent]
  with sent loop show ?thesis
    by simp
qed

text \<open>
  C3 at the two councils above, \<^verbatim>\<open>a\<close> open in the form. \<^verbatim>\<open>handleRemoveModel('m1')\<close> is
  not blocked, because its guard passes over the council being edited; it leaves the
  stored council \<^verbatim>\<open>a\<close> without members and marks it dirty.
  \<^verbatim>\<open>handleSelectEditingCouncil('b')\<close> puts the one member of \<^verbatim>\<open>b\<close> in the form, so
  \<^verbatim>\<open>handleSaveSettings()\<close> passes its checks. Its requests are the update of \<^verbatim>\<open>b\<close>, the
  update of \<^verbatim>\<open>a\<close> with an empty member list and an empty chairman, \<^verbatim>\<open>listCouncils\<close>, and
  \<^verbatim>\<open>updateSettings\<close>. The first two are issued whatever the server answers to the
  second and to the later ones.
\<close>

theorem council_size_violated:
  "\<not> blocked ''m1'' two_council_state
   \<and> councils (handleRemoveModel ''m1'' two_council_state) =
       [\<lparr>council_models = [], chairman_model = [], key = ''a'', name = ''A''\<rparr>,
        \<lparr>council_models = [''m2''], chairman_model = ''m2'', key = ''b'', name = ''B''\<rparr>]
   \<and> settingsForm (handleSelectEditingCouncil ''b'' (handleRemoveModel ''m1'' two_council_state))
       = \<lparr>council_models = [''m2''], chairman_model = ''m2''\<rparr>
   \<and> snd (handleSaveSettings accepting_server
            (handleSelectEditingCouncil ''b'' (handleRemoveModel ''m1'' two_council_state)))
       = [UpdateCouncil ''b'' ''B'' [''m2''] ''m2'',
          UpdateCouncil ''a'' ''A'' [] [],
          ListCouncils,
          UpdateSettings Null [''m2''] ''m2'' (Some [''m2''])]
   \<and> saved_models (UpdateCouncil ''a'' ''A'' [] []) = Some []
   \<and> take 2 (snd (handleSaveSettings
                     (accepting_server
                        \<lparr>resave_reply := answer, list_reply := listed, settings_reply := updated\<rparr>)
                     (handleSelectEditingCouncil ''b''
                        (handleRemoveModel ''m1'' two_council_state))))
       = [UpdateCouncil ''b'' ''B'' [''m2''] ''m2'', UpdateCouncil ''a'' ''A'' [] []]"
proof -
  let ?s = "handleSelectEditingCouncil ''b'' (handleRemoveModel ''m1'' two_council_state)"
  have free: "\<not> blocked ''m1'' two_council_state"
    by (simp add: blocked_def two_council_state_def init_settings_def)
  have stored: "councils (handleRemoveModel ''m1'' two_council_state) =
       [\<lparr>council_models = [], chairman_model = [], key = ''a'', name = ''A''\<rparr>,
        \<lparr>council_models = [''m2''], chairman_model = ''m2'', key = ''b'', name = ''B''\<rparr>]"
    by (simp add: two_council_state_def init_settings_def handleRemoveModel_def
          trim_council_def first_or_empty_def Let_def)
  have shown: "settingsForm ?s = \<lparr>council_models = [''m2''], chairman_model = ''m2''\<rparr>"
    unfolding emptied_state by (simp add: init_settings_def)
  note requests = emptied_requests
  have first_two: "take 2 (snd (handleSaveSettings
                     (accepting_server
                        \<lparr>resave_reply := answer, list_reply := listed, settings_reply := updated\<rparr>)
                     ?s))
       = [UpdateCouncil ''b'' ''B'' [''m2''] ''m2'', UpdateCouncil ''a'' ''A'' [] []]"
    unfolding emptied_state
    by (simp add: handleSaveSettings_def resave_requests_def map_filter_simps Let_def
          accepting_server_def init_settings_def trim_def is_ws_def str_or_def set_add_def
          split: awaited.splits)
  from free stored shown requests first_two show ?thesis
    by simp
qed

section \<open>The streaming client: proofs\<close>

lemma split_blank_nonempty: "split_blank s \<noteq> []"
  by (induction s rule: split_blank.induct) (auto simp: cons_hd_def split: list.splits)

lemma split_blank_single: "split_blank s = [p] \<Longrightarrow> p = s"
  by (induction s arbitrary: p rule: split_blank.induct)
     (auto simp: cons_hd_def split_blank_nonempty split: list.splits if_splits)

text \<open>
  Splitting a text that is extended later: the complete pieces stay, and the last piece
  is split again with what follows it. This is why cutting the same text into reads at
  other places changes nothing.
\<close>

lemma split_blank_append:
  "split_blank (s @ t) = butlast (split_blank s) @ split_blank (last (split_blank s) @ t)"
proof (induction s rule: split_blank.induct)
  case (1 a b cs)
  show ?case
  proof (cases "a = CHR 0x0A \<and> b = CHR 0x0A")
    case True
    then show ?thesis using 1(1) by (simp add: split_blank_nonempty)
  next
    case False
    then have IH: "split_blank ((b # cs) @ t) =
        butlast (split_blank (b # cs)) @ split_blank (last (split_blank (b # cs)) @ t)"
      using 1(2) by blast
    have whole: "split_blank (a # b # cs) = cons_hd a (split_blank (b # cs))"
      using False by (simp only: split_blank.simps(1) if_False)
    have lhs: "split_blank ((a # b # cs) @ t) = cons_hd a (split_blank ((b # cs) @ t))"
      using False by (simp only: append_Cons split_blank.simps(1) if_False)
    obtain p ps where ps: "split_blank (b # cs) = p # ps"
      using split_blank_nonempty [of "b # cs"] by (cases "split_blank (b # cs)") auto
    show ?thesis
    proof (cases ps)
      case Nil
      then have "p = b # cs"
        using ps split_blank_single by blast
      then have "split_blank (a # b # cs) = [a # b # cs]"
        using whole ps Nil by (simp add: cons_hd_def)
      then show ?thesis
        by (simp only: butlast.simps last.simps append_Nil if_True simp_thms)
    next
      case (Cons q qs)
      have "split_blank (a # b # cs) = (a # p) # q # qs"
        using whole ps Cons by (simp add: cons_hd_def)
      moreover have "split_blank ((b # cs) @ t) =
          p # (butlast (q # qs) @ split_blank (last (q # qs) @ t))"
        using IH ps Cons by simp
      ultimately show ?thesis
        unfolding lhs by (simp add: cons_hd_def)
    qed
  qed
next
  case (2 a)
  then show ?case by simp
next
  case 3
  then show ?case by simp
qed

text \<open>The piece kept in the buffer holds no blank line.\<close>

lemma split_blank_last_idem: "split_blank (last (split_blank s)) = [last (split_blank s)]"
proof (induction s rule: split_blank.induct)
  case (1 a b cs)
  show ?case
  proof (cases "a = CHR 0x0A \<and> b = CHR 0x0A")
    case True
    then show ?thesis using 1(1) by (simp add: split_blank_nonempty)
  next
    case False
    then have IH: "split_blank (last (split_blank (b # cs))) = [last (split_blank (b # cs))]"
      using 1(2) by blast
    have whole: "split_blank (a # b # cs) = cons_hd a (split_blank (b # cs))"
      using False by (simp only: split_blank.simps(1) if_False)
    obtain p ps where ps: "split_blank (b # cs) = p # ps"
      using split_blank_nonempty [of "b # cs"] by (cases "split_blank (b # cs)") auto
    show ?thesis
    proof (cases ps)
      case Nil
      then have "p = b # cs"
        using ps split_blank_single by blast
      then have "split_blank (a # b # cs) = [a # b # cs]"
        using whole ps Nil by (simp add: cons_hd_def)
      then show ?thesis
        by (simp only: last.simps if_True simp_thms)
    next
      case (Cons q qs)
      have "split_blank (a # b # cs) = (a # p) # q # qs"
        using whole ps Cons by (simp add: cons_hd_def)
      then have "last (split_blank (a # b # cs)) = last (split_blank (b # cs))"
        using ps Cons by simp
      then show ?thesis using IH by simp
    qed
  qed
next
  case (2 a)
  then show ?case by simp
next
  case 3
  then show ?case by simp
qed

lemma str_or_Nil: "str_or s [] = s"
  by (simp add: str_or_def)

text \<open>
  The loop, started on a buffer without a blank line, does what one split of the whole
  text says: it delivers every piece but the last, and keeps the last.
\<close>

lemma read_loop_whole:
  assumes "split_blank buffer = [buffer]"
  shows "read_loop parse buffer reads =
     (concat (map (deliver_evt parse) (butlast (split_blank (buffer @ concat reads)))),
      last (split_blank (buffer @ concat reads)))"
  using assms
proof (induction reads arbitrary: buffer)
  case Nil
  then show ?case by simp
next
  case (Cons v rest)
  let ?events = "split_blank (buffer @ v)"
  have IH: "read_loop parse (last ?events) rest =
     (concat (map (deliver_evt parse) (butlast (split_blank (last ?events @ concat rest)))),
      last (split_blank (last ?events @ concat rest)))"
    by (rule Cons.IH) (rule split_blank_last_idem)
  have whole: "split_blank (buffer @ concat (v # rest)) =
      butlast ?events @ split_blank (last ?events @ concat rest)"
    using split_blank_append [of "buffer @ v" "concat rest"] by simp
  show ?case
    unfolding whole
    by (simp add: Let_def str_or_Nil IH butlast_append split_blank_nonempty)
qed

lemma calls_of_append: "calls_of (xs @ ys) = calls_of xs @ calls_of ys"
  by (induction xs rule: calls_of.induct) simp_all

lemma get_prop_type:
  "get_prop ''type'' event =
     (if event = Null \<or> event = Undefined then Inl TypeError else Inr (type_of event))"
  by (cases event) (simp_all add: type_of_def prop_of_def)

lemma calls_of_deliver_evt:
  "calls_of (deliver_evt parse chunk) =
     (case delivered parse chunk of None \<Rightarrow> [] | Some call \<Rightarrow> [call])"
  by (simp add: deliver_evt_def delivered_def Let_def get_prop_type split: option.splits)

lemma calls_of_chunks:
  "calls_of (concat (map (deliver_evt parse) chunks)) = List.map_filter (delivered parse) chunks"
  by (induction chunks)
     (simp_all add: calls_of_append calls_of_deliver_evt map_filter_simps split: option.splits)

lemma stream_calls:
  "calls_of (fst (sendMessageStream parse (Streaming reads closing))) =
     List.map_filter (delivered parse) (butlast (split_blank (concat reads)))"
  using read_loop_whole [of "[]" parse reads]
  by (simp add: sendMessageStream_def calls_of_chunks)

text \<open>
  C1, as the code has it. Whatever the reads into which the body arrives, the calls of
  \<^verbatim>\<open>onEvent\<close> are, in the order of the text and once each, those of the pieces of the
  whole text that a blank line ends, for every piece whose trimmed text starts with
  \<^verbatim>\<open>data: \<close> and whose rest parses to a JSON value other than \<^verbatim>\<open>null\<close>, with the
  arguments \<^verbatim>\<open>(event.type, event)\<close>. A piece that does not parse, or parses to
  \<^verbatim>\<open>null\<close>, is skipped and the pieces after it are still delivered. The text after the
  last blank line stays in the buffer and is not delivered.
\<close>

theorem sse_delivery:
  "calls_of (fst (sendMessageStream parse (Streaming reads closing))) =
     List.map_filter (delivered parse) (butlast (split_blank (concat reads)))
   \<and> snd (read_loop parse [] reads) = last (split_blank (concat reads))
   \<and> snd (sendMessageStream parse (Streaming reads closing)) = closing"
  using read_loop_whole [of "[]" parse reads] stream_calls [of parse reads closing]
  by (simp add: sendMessageStream_def)

theorem sse_delivery_witness:
  \<open>calls_of (fst (sendMessageStream example_parse
      (Streaming
         [''data: {"type":"stage1_start"}'' @ [CHR 0x0A],
          [CHR 0x0A] @ ''data: {"type":'',
          ''bad}'' @ [CHR 0x0A, CHR 0x0A] @ ''data: {"type":"complete"}''
             @ [CHR 0x0A, CHR 0x0A] @ ''data: {"ty'']
         None)))
     = [(Str ''stage1_start'', Obj [(''type'', Str ''stage1_start'')]),
        (Str ''complete'', Obj [(''type'', Str ''complete'')])]
   \<and> snd (read_loop example_parse []
         [''data: {"type":"stage1_start"}'' @ [CHR 0x0A],
          [CHR 0x0A] @ ''data: {"type":'',
          ''bad}'' @ [CHR 0x0A, CHR 0x0A] @ ''data: {"type":"complete"}''
             @ [CHR 0x0A, CHR 0x0A] @ ''data: {"ty''])
     = ''data: {"ty''\<close>
  using sse_delivery
    [of example_parse
        \<open>[''data: {"type":"stage1_start"}'' @ [CHR 0x0A],
          [CHR 0x0A] @ ''data: {"type":'',
          ''bad}'' @ [CHR 0x0A, CHR 0x0A] @ ''data: {"type":"complete"}''
             @ [CHR 0x0A, CHR 0x0A] @ ''data: {"ty'']\<close> None]
  by (simp add: delivered_def trim_def is_ws_def example_parse_def type_of_def prop_of_def
        cons_hd_def map_filter_simps)

text \<open>
  C1 as stated fails on a chunk whose payload is the JSON text \<^verbatim>\<open>null\<close>: the chunk is
  complete, its trimmed text starts with \<^verbatim>\<open>data: \<close>, and the rest parses, but reading
  \<^verbatim>\<open>event.type\<close> throws inside the \<^verbatim>\<open>try\<close> and \<^verbatim>\<open>onEvent\<close> is not called.
\<close>

theorem sse_delivery_counterexample:
  "butlast (split_blank (''data: null'' @ [CHR 0x0A, CHR 0x0A])) = [''data: null'']
   \<and> prefix ''data: '' (trim ''data: null'')
   \<and> example_parse (drop 6 (trim ''data: null'')) = Some Null
   \<and> sendMessageStream example_parse (Streaming [''data: null'' @ [CHR 0x0A, CHR 0x0A]] None)
       = ([ConsoleError ''null''], None)
   \<and> calls_of (fst (sendMessageStream example_parse
          (Streaming [''data: null'' @ [CHR 0x0A, CHR 0x0A]] None))) = []"
  by (simp add: sendMessageStream_def deliver_evt_def trim_def is_ws_def example_parse_def
        cons_hd_def str_or_def)

section \<open>The conversation list: proofs\<close>

lemma insert_stable_insort:
  assumes "\<forall>c \<in> set (x # xs). activity_time getTime c \<noteq> None"
  shows "insert_stable (activity_cmp getTime) x xs =
           insort_key (\<lambda>c. - the (activity_time getTime c)) x xs"
  using assms
proof (induction xs)
  case Nil
  then show ?case by simp
next
  case (Cons y ys)
  then obtain tx ty where t: "activity_time getTime x = Some tx" "activity_time getTime y = Some ty"
    by auto
  then have "sort_compare (activity_cmp getTime) x y = ty - tx"
    by (simp add: sort_compare_def activity_cmp_def activity_time_def)
  then show ?case
    using Cons t by simp
qed

lemma set_insert_stable: "set (insert_stable cmp x xs) = insert x (set xs)"
  by (induction xs) auto

lemma set_array_sort: "set (array_sort cmp xs) = set xs"
  by (induction xs) (auto simp: set_insert_stable)

text \<open>
  When every time is a valid date the comparator is consistent, and the model of
  \<^verbatim>\<open>sort\<close> is the library's stable sort by falling time.
\<close>

lemma array_sort_sort_key:
  assumes "\<forall>c \<in> set xs. activity_time getTime c \<noteq> None"
  shows "array_sort (activity_cmp getTime) xs =
           sort_key (\<lambda>c. - the (activity_time getTime c)) xs"
  using assms
proof (induction xs)
  case Nil
  then show ?case by simp
next
  case (Cons x xs)
  then have IH: "array_sort (activity_cmp getTime) xs =
      sort_key (\<lambda>c. - the (activity_time getTime c)) xs"
    by simp
  have "\<forall>c \<in> set (x # array_sort (activity_cmp getTime) xs). activity_time getTime c \<noteq> None"
    using Cons.prems by (simp add: set_array_sort)
  from insert_stable_insort [OF this] show ?case
    by (simp add: IH)
qed

text \<open>
  \<^verbatim>\<open>sortConversationsByActivity\<close>: the array returned is a new one, the array passed in
  and every other array keep their contents, and, when every time stamp is a valid
  date, the new array holds the same entries as the old, ordered by falling time of
  last interaction, entries of equal time in the order they had.
\<close>

theorem sort_by_activity:
  assumes "list < length arrays"
    and "\<forall>c \<in> set (arrays ! list). activity_time getTime c \<noteq> None"
  shows "fst (sortConversationsByActivity_store getTime list arrays) \<noteq> list
     \<and> (\<forall>a < length arrays.
           snd (sortConversationsByActivity_store getTime list arrays) ! a = arrays ! a)
     \<and> snd (sortConversationsByActivity_store getTime list arrays)
           ! fst (sortConversationsByActivity_store getTime list arrays)
         = sortConversationsByActivity getTime (arrays ! list)
     \<and> mset (sortConversationsByActivity getTime (arrays ! list)) = mset (arrays ! list)
     \<and> sorted (rev (map (\<lambda>c. the (activity_time getTime c))
                      (sortConversationsByActivity getTime (arrays ! list))))
     \<and> (\<forall>t. filter (\<lambda>c. the (activity_time getTime c) = t)
                (sortConversationsByActivity getTime (arrays ! list))
              = filter (\<lambda>c. the (activity_time getTime c) = t) (arrays ! list))"
proof -
  let ?k = "\<lambda>c. - the (activity_time getTime c)"
  let ?xs = "arrays ! list"
  have eq: "sortConversationsByActivity getTime ?xs = sort_key ?k ?xs"
    unfolding sortConversationsByActivity_def by (rule array_sort_sort_key [OF assms(2)])
  have "sorted (map ?k (sort_key ?k ?xs))"
    by simp
  then have "sorted (rev (map (\<lambda>c. the (activity_time getTime c)) (sort_key ?k ?xs)))"
    by (simp add: sorted_wrt_rev sorted_map rev_map sorted_wrt_map)
  moreover have "filter (\<lambda>c. the (activity_time getTime c) = t) (sort_key ?k ?xs)
      = filter (\<lambda>c. the (activity_time getTime c) = t) ?xs" for t
    using sort_key_stable [of ?k "- t" ?xs] by simp
  moreover have "fst (sortConversationsByActivity_store getTime list arrays) \<noteq> list"
    and "\<forall>a < length arrays.
           snd (sortConversationsByActivity_store getTime list arrays) ! a = arrays ! a"
    and "snd (sortConversationsByActivity_store getTime list arrays)
           ! fst (sortConversationsByActivity_store getTime list arrays)
         = sortConversationsByActivity getTime ?xs"
    using assms(1)
    by (auto simp: sortConversationsByActivity_store_def sortConversationsByActivity_def
          Let_def nth_append)
  ultimately show ?thesis
    unfolding eq by simp
qed

theorem sort_by_activity_witness:
  "(0 :: nat) < length [rev previous_list]
   \<and> map (activity_time example_time) previous_list = [Some 1717200000000, Some 1706745600000]
   \<and> sortConversationsByActivity_store example_time 0 [rev previous_list]
       = (1, [rev previous_list, previous_list])
   \<and> sortConversationsByActivity example_time (rev previous_list) = previous_list"
proof -
  have times: "map (activity_time example_time) previous_list =
      [Some 1717200000000, Some 1706745600000]"
    by (simp add: previous_list_def activity_time_def toTime_def getLastInteracted_def
          js_or_def example_time_def)
  have sorted_copy: "sortConversationsByActivity example_time (rev previous_list) = previous_list"
    by (simp add: sortConversationsByActivity_def previous_list_def toTime_def
          getLastInteracted_def js_or_def example_time_def activity_cmp_def sort_compare_def)
  have store: "sortConversationsByActivity_store example_time 0 [rev previous_list]
      = (1, [rev previous_list, previous_list])"
    using sorted_copy
    by (simp add: sortConversationsByActivity_store_def sortConversationsByActivity_def)
  have valid: "\<forall>c \<in> set ([rev previous_list] ! 0). activity_time example_time c \<noteq> None"
    using times by (simp add: previous_list_def)
  have inside: "(0 :: nat) < length [rev previous_list]"
    by simp
  note sort_by_activity [OF inside valid]
  with times sorted_copy store inside show ?thesis
    by blast
qed

text \<open>
  What the merge does to one incoming record. Its \<^verbatim>\<open>last_interacted_at\<close> is kept from
  the previous record of the same id when the incoming record has none. Its
  \<^verbatim>\<open>lastInteracted\<close> is taken from the incoming record alone as soon as that has any of
  the four time stamps, \<^verbatim>\<open>created_at\<close> included; the previous record is read only when
  it has none of them.
\<close>

theorem merge_fields:
  "mergeConversationsWithRecency getTime incoming previous =
     sortConversationsByActivity getTime (map (normalized previous) incoming)
   \<and> (\<not> truthy (last_interacted_at conv) \<and> prevMap_get previous (conv_id conv) = Some p
        \<and> truthy (last_interacted_at p)
      \<longrightarrow> last_interacted_at (normalized previous conv) = last_interacted_at p)
   \<and> (truthy (getLastInteracted (Some conv))
      \<longrightarrow> lastInteracted (normalized previous conv) = getLastInteracted (Some conv))
   \<and> (\<not> truthy (getLastInteracted (Some conv))
        \<and> truthy (getLastInteracted (prevMap_get previous (conv_id conv)))
      \<longrightarrow> lastInteracted (normalized previous conv) =
            getLastInteracted (prevMap_get previous (conv_id conv)))
   \<and> (\<not> truthy (getLastInteracted (Some conv))
        \<and> \<not> truthy (getLastInteracted (prevMap_get previous (conv_id conv)))
      \<longrightarrow> lastInteracted (normalized previous conv) = created_at conv
          \<and> last_interacted_at (normalized previous conv) = created_at conv)"
proof -
  have untimed: "\<not> truthy (last_interacted_at conv)"
    if "\<not> truthy (getLastInteracted (Some conv))"
    using that by (auto simp: getLastInteracted_def js_or_def split: if_splits)
  have untimed_prev: "\<not> truthy (case prevMap_get previous (conv_id conv) of
                          None \<Rightarrow> Undefined | Some p \<Rightarrow> last_interacted_at p)"
    if "\<not> truthy (getLastInteracted (prevMap_get previous (conv_id conv)))"
    using that by (auto simp: getLastInteracted_def js_or_def split: if_splits option.splits)
  show ?thesis
    using untimed untimed_prev
    by (auto simp: mergeConversationsWithRecency_def normalized_def js_or_def)
qed

theorem merge_fields_witness:
  "truthy (last_interacted_at (hd incoming_list)) = False
   \<and> prevMap_get previous_list ''c1'' = Some (hd previous_list)
   \<and> truthy (last_interacted_at (hd previous_list))
   \<and> truthy (getLastInteracted (Some (hd incoming_list)))
   \<and> last_interacted_at (normalized previous_list (hd incoming_list)) =
       Str ''2024-06-01T00:00:00Z''
   \<and> lastInteracted (normalized previous_list (hd incoming_list)) =
       Str ''2024-01-01T00:00:00Z''"
  using merge_fields [of example_time incoming_list previous_list "hd incoming_list"
      "hd previous_list"]
  by (simp add: incoming_list_def previous_list_def prevMap_get_def getLastInteracted_def
        js_or_def normalized_def)

text \<open>
  C9 at the lists above. The incoming record of \<^verbatim>\<open>c1\<close> has neither
  \<^verbatim>\<open>lastInteracted\<close> nor \<^verbatim>\<open>last_interacted_at\<close>, and the previous record has June in
  both. After the merge \<^verbatim>\<open>last_interacted_at\<close> is June, but \<^verbatim>\<open>lastInteracted\<close> is the
  January of \<^verbatim>\<open>created_at\<close>: \<^verbatim>\<open>getLastInteracted(conv)\<close> already falls back to
  \<^verbatim>\<open>created_at\<close>, so the previous record is never consulted. The sort reads
  \<^verbatim>\<open>lastInteracted\<close> first, and \<^verbatim>\<open>c1\<close> ends behind \<^verbatim>\<open>c2\<close>.
\<close>

theorem merge_drops_known_lastInteracted:
  "map (\<lambda>c. (conv_id c, lastInteracted c, last_interacted_at c))
       (mergeConversationsWithRecency example_time incoming_list previous_list)
     = [(''c2'', Str ''2024-02-01T00:00:00Z'', Str ''2024-02-01T00:00:00Z''),
        (''c1'', Str ''2024-01-01T00:00:00Z'', Str ''2024-06-01T00:00:00Z'')]
   \<and> map conv_id (sortConversationsByActivity example_time previous_list) = [''c1'', ''c2'']"
  by (simp add: mergeConversationsWithRecency_def normalized_def
        sortConversationsByActivity_def incoming_list_def previous_list_def prevMap_get_def
        getLastInteracted_def js_or_def activity_cmp_def toTime_def example_time_def
        sort_compare_def)

section \<open>Sending a message: proofs\<close>

lemma onEvent_default:
  assumes "eventType \<notin> Str ` set handled_types"
  shows "onEvent eventType event s =
           Inr (s\<lparr>effects := effects s @ [Console ''Unknown event type:'' eventType]\<rparr>)"
  using assms by (auto simp: onEvent_def handled_types_def)

lemma get_prop_total:
  "event \<noteq> Null \<Longrightarrow> event \<noteq> Undefined \<Longrightarrow> get_prop k event = Inr (prop_of k event)"
  by (cases event) (simp_all add: prop_of_def)

lemma at_lastMsg_ok:
  assumes "in_progress s prev m l" and "f m = Inr m'"
  shows "at_lastMsg f s = Inr (store_last s prev m')"
  using assms by (auto simp: at_lastMsg_def Let_def in_progress_def store_last_def)

lemma set_loading_ok:
  assumes "loading m = Some l"
  shows "set_loading g m = Inr (m\<lparr>loading := Some (g l)\<rparr>)"
    and "set_loading g (m\<lparr>stage1 := a\<rparr>) = Inr (m\<lparr>stage1 := a, loading := Some (g l)\<rparr>)"
    and "set_loading g (m\<lparr>stage2 := a, metadata := b\<rparr>) =
           Inr (m\<lparr>stage2 := a, metadata := b, loading := Some (g l)\<rparr>)"
    and "set_loading g (m\<lparr>stage3 := a\<rparr>) = Inr (m\<lparr>stage3 := a, loading := Some (g l)\<rparr>)"
  using assms by (simp_all add: set_loading_def)

lemma start_events:
  assumes "in_progress s prev m l"
  shows "onEvent (Str ''stage1_start'') event s =
           Inr (store_last s prev (m\<lparr>loading := Some (l\<lparr>loading_stage1 := True\<rparr>)\<rparr>))"
    and "onEvent (Str ''stage2_start'') event s =
           Inr (store_last s prev (m\<lparr>loading := Some (l\<lparr>loading_stage2 := True\<rparr>)\<rparr>))"
    and "onEvent (Str ''stage3_start'') event s =
           Inr (store_last s prev (m\<lparr>loading := Some (l\<lparr>loading_stage3 := True\<rparr>)\<rparr>))"
proof -
  have l: "loading m = Some l"
    using assms by (simp add: in_progress_def)
  show "onEvent (Str ''stage1_start'') event s =
           Inr (store_last s prev (m\<lparr>loading := Some (l\<lparr>loading_stage1 := True\<rparr>)\<rparr>))"
    by (simp add: onEvent_def at_lastMsg_ok [OF assms] set_loading_ok [OF l])
  show "onEvent (Str ''stage2_start'') event s =
           Inr (store_last s prev (m\<lparr>loading := Some (l\<lparr>loading_stage2 := True\<rparr>)\<rparr>))"
    by (simp add: onEvent_def at_lastMsg_ok [OF assms] set_loading_ok [OF l])
  show "onEvent (Str ''stage3_start'') event s =
           Inr (store_last s prev (m\<lparr>loading := Some (l\<lparr>loading_stage3 := True\<rparr>)\<rparr>))"
    by (simp add: onEvent_def at_lastMsg_ok [OF assms] set_loading_ok [OF l])
qed

lemma complete_events:
  assumes "in_progress s prev m l" and "event \<noteq> Null" and "event \<noteq> Undefined"
  shows "onEvent (Str ''stage1_complete'') event s =
           Inr (store_last s prev
                  (m\<lparr>stage1 := prop_of ''data'' event,
                     loading := Some (l\<lparr>loading_stage1 := False\<rparr>)\<rparr>))"
    and "onEvent (Str ''stage2_complete'') event s =
           Inr (store_last s prev
                  (m\<lparr>stage2 := prop_of ''data'' event, metadata := prop_of ''metadata'' event,
                     loading := Some (l\<lparr>loading_stage2 := False\<rparr>)\<rparr>))"
    and "onEvent (Str ''stage3_complete'') event s =
           Inr (store_last s prev
                  (m\<lparr>stage3 := prop_of ''data'' event,
                     loading := Some (l\<lparr>loading_stage3 := False\<rparr>)\<rparr>))"
proof -
  have l: "loading m = Some l"
    using assms(1) by (simp add: in_progress_def)
  note rd = get_prop_total [OF assms(2,3)]
  show "onEvent (Str ''stage1_complete'') event s =
           Inr (store_last s prev
                  (m\<lparr>stage1 := prop_of ''data'' event,
                     loading := Some (l\<lparr>loading_stage1 := False\<rparr>)\<rparr>))"
    by (simp add: onEvent_def at_lastMsg_ok [OF assms(1)] set_loading_ok [OF l] rd bind_err_def)
  show "onEvent (Str ''stage2_complete'') event s =
           Inr (store_last s prev
                  (m\<lparr>stage2 := prop_of ''data'' event, metadata := prop_of ''metadata'' event,
                     loading := Some (l\<lparr>loading_stage2 := False\<rparr>)\<rparr>))"
    by (simp add: onEvent_def at_lastMsg_ok [OF assms(1)] set_loading_ok [OF l] rd bind_err_def)
  show "onEvent (Str ''stage3_complete'') event s =
           Inr (store_last s prev
                  (m\<lparr>stage3 := prop_of ''data'' event,
                     loading := Some (l\<lparr>loading_stage3 := False\<rparr>)\<rparr>))"
    by (simp add: onEvent_def at_lastMsg_ok [OF assms(1)] set_loading_ok [OF l] rd bind_err_def)
qed

lemma other_events:
  shows "onEvent (Str ''title_complete'') event s =
           Inr (s\<lparr>effects := effects s @ [LoadConversations]\<rparr>)"
    and "onEvent (Str ''complete'') event s =
           Inr (s\<lparr>effects := effects s @ [LoadConversations], isLoading := False\<rparr>)"
    and "event \<noteq> Null \<Longrightarrow> event \<noteq> Undefined \<Longrightarrow>
         onEvent (Str ''error'') event s =
           Inr (s\<lparr>effects := effects s @ [Console ''Stream error:'' (prop_of ''message'' event)],
                  sendError :=
                    (if truthy (prop_of ''message'' event) then prop_of ''message'' event
                     else Str ''Failed to send message. Check API key in Settings.''),
                  isLoading := False\<rparr>)"
  by (simp_all add: onEvent_def get_prop_total bind_err_def js_or_def)

text \<open>A stage event writes one new value into the last message object, and nothing else.\<close>

lemma store_witness:
  assumes "r = Inr (store_last s prev m')" and "loading m' = Some l'"
    and "role m' = role m" and "content m' = content m" and "Q \<longrightarrow> m' = x"
  shows "\<exists>m' l'. r = Inr (store_last s prev m') \<and> loading m' = Some l'
           \<and> role m' = role m \<and> content m' = content m \<and> (Q \<longrightarrow> m' = x)"
  using assms by blast

lemma stage_event_store:
  assumes "in_progress s prev m l" and "event \<noteq> Null" and "event \<noteq> Undefined"
    and "eventType \<in> Str ` set stage_types"
  shows "\<exists>m' l'. onEvent eventType event s = Inr (store_last s prev m') \<and> loading m' = Some l'
           \<and> role m' = role m \<and> content m' = content m
           \<and> (eventType = Str ''stage2_complete'' \<longrightarrow>
                 m' = m\<lparr>stage2 := prop_of ''data'' event, metadata := prop_of ''metadata'' event,
                         loading := Some (l\<lparr>loading_stage2 := False\<rparr>)\<rparr>)"
proof -
  consider (s1) "eventType = Str ''stage1_start''" | (c1) "eventType = Str ''stage1_complete''"
    | (s2) "eventType = Str ''stage2_start''" | (c2) "eventType = Str ''stage2_complete''"
    | (s3) "eventType = Str ''stage3_start''" | (c3) "eventType = Str ''stage3_complete''"
    using assms(4) by (auto simp: stage_types_def)
  then show ?thesis
  proof cases
    case s1
    show ?thesis unfolding s1
      by (rule store_witness [OF start_events(1) [OF assms(1)]]) simp_all
  next
    case c1
    show ?thesis unfolding c1
      by (rule store_witness [OF complete_events(1) [OF assms(1,2,3)]]) simp_all
  next
    case s2
    show ?thesis unfolding s2
      by (rule store_witness [OF start_events(2) [OF assms(1)]]) simp_all
  next
    case c2
    show ?thesis unfolding c2
      by (rule store_witness [OF complete_events(2) [OF assms(1,2,3)]]) simp_all
  next
    case s3
    show ?thesis unfolding s3
      by (rule store_witness [OF start_events(3) [OF assms(1)]]) simp_all
  next
    case c3
    show ?thesis unfolding c3
      by (rule store_witness [OF complete_events(3) [OF assms(1,2,3)]]) simp_all
  qed
qed












lemma optimistic_eq:
  assumes "currentConversation s = Some prev"
  shows "optimistic c s =
     Inr (s\<lparr>heap := heap s @ [userMessage c, assistantMessage],
            currentConversation :=
              Some (prev\<lparr>messages :=
                           messages prev @ [length (heap s), Suc (length (heap s))]\<rparr>)\<rparr>)"
  using assms by (simp add: optimistic_def append_message_def bind_err_def)


text \<open>The appends keep the message objects of the conversation distinct.\<close>

lemma optimistic_wf:
  assumes "wf_state s" and "currentConversation s = Some prev" and "optimistic c s = Inr s3"
  shows "wf_state s3"
  using assms(1,3) unfolding optimistic_eq [OF assms(2)]
  by (fastforce simp: wf_state_def assms(2))

lemma ensure_wf: "wf_state s \<Longrightarrow> wf_state (ensure_conversation i s)"
  by (auto simp: wf_state_def ensure_conversation_def Let_def split: option.splits)

lemma distinct_last_not_earlier:
  assumes "distinct xs" and "xs \<noteq> []"
  shows "last xs \<notin> set (butlast xs)"
proof -
  have "distinct (butlast xs @ [last xs])"
    using assms by simp
  then show ?thesis by simp
qed






text \<open>
  C10. On an event whose type is none of the nine, the callback succeeds and changes
  nothing but the console: the conversation, the loading flag, the send error, the
  message store and the conversation list keep their values.
\<close>

theorem unknown_event_ignored:
  assumes "eventType \<notin> Str ` set handled_types"
  shows "\<exists>s'. onEvent eventType event s = Inr s'
           \<and> currentConversation s' = currentConversation s
           \<and> isLoading s' = isLoading s
           \<and> sendError s' = sendError s
           \<and> heap s' = heap s
           \<and> conversations s' = conversations s
           \<and> currentConversationId s' = currentConversationId s
           \<and> effects s' = effects s @ [Console ''Unknown event type:'' eventType]"
  using onEvent_default [OF assms, of event s] by simp

theorem unknown_event_ignored_witness:
  "(Str ''heartbeat'' \<in> Str ` set handled_types) = False
   \<and> onEvent (Str ''heartbeat'') (Obj [(''type'', Str ''heartbeat'')]) sending_state =
       Inr (sending_state\<lparr>effects := [Console ''Unknown event type:'' (Str ''heartbeat'')]\<rparr>)
   \<and> onEvent Undefined (Num 5) sending_state =
       Inr (sending_state\<lparr>effects := [Console ''Unknown event type:'' Undefined]\<rparr>)"
  using unknown_event_ignored
          [of "Str ''heartbeat''" "Obj [(''type'', Str ''heartbeat'')]" sending_state]
        unknown_event_ignored [of Undefined "Num 5" sending_state]
  by (auto simp: handled_types_def sending_state_def)

text \<open>
  C2, as the code has it. When the last message of the open conversation is the
  assistant message in progress, the callback, on an event that \<^verbatim>\<open>sendMessageStream\<close>
  delivers:
  sets the \<^verbatim>\<open>loading\<close> flag of the stage on \<^verbatim>\<open>stageN_start\<close>;
  stores \<^verbatim>\<open>event.data\<close> in \<^verbatim>\<open>stageN\<close> (for stage 2 also \<^verbatim>\<open>event.metadata\<close> in
  \<^verbatim>\<open>metadata\<close>) and clears the flag on \<^verbatim>\<open>stageN_complete\<close>;
  reloads the conversation list on \<^verbatim>\<open>title_complete\<close>;
  reloads it and clears \<^verbatim>\<open>isLoading\<close> on \<^verbatim>\<open>complete\<close>;
  clears \<^verbatim>\<open>isLoading\<close> on \<^verbatim>\<open>error\<close> and sets the send error to \<^verbatim>\<open>event.message\<close> when
  that is truthy, and to a fixed text otherwise;
  and only logs any other type.
\<close>

theorem dispatcher_updates:
  assumes "in_progress s prev m l" and "event \<noteq> Null" and "event \<noteq> Undefined"
  shows
    "onEvent (Str ''stage1_start'') event s =
       Inr (store_last s prev (m\<lparr>loading := Some (l\<lparr>loading_stage1 := True\<rparr>)\<rparr>))
     \<and> onEvent (Str ''stage1_complete'') event s =
         Inr (store_last s prev
                (m\<lparr>stage1 := prop_of ''data'' event,
                   loading := Some (l\<lparr>loading_stage1 := False\<rparr>)\<rparr>))
     \<and> onEvent (Str ''stage2_start'') event s =
         Inr (store_last s prev (m\<lparr>loading := Some (l\<lparr>loading_stage2 := True\<rparr>)\<rparr>))
     \<and> onEvent (Str ''stage2_complete'') event s =
         Inr (store_last s prev
                (m\<lparr>stage2 := prop_of ''data'' event, metadata := prop_of ''metadata'' event,
                   loading := Some (l\<lparr>loading_stage2 := False\<rparr>)\<rparr>))
     \<and> onEvent (Str ''stage3_start'') event s =
         Inr (store_last s prev (m\<lparr>loading := Some (l\<lparr>loading_stage3 := True\<rparr>)\<rparr>))
     \<and> onEvent (Str ''stage3_complete'') event s =
         Inr (store_last s prev
                (m\<lparr>stage3 := prop_of ''data'' event,
                   loading := Some (l\<lparr>loading_stage3 := False\<rparr>)\<rparr>))
     \<and> onEvent (Str ''title_complete'') event s =
         Inr (s\<lparr>effects := effects s @ [LoadConversations]\<rparr>)
     \<and> onEvent (Str ''complete'') event s =
         Inr (s\<lparr>effects := effects s @ [LoadConversations], isLoading := False\<rparr>)
     \<and> onEvent (Str ''error'') event s =
         Inr (s\<lparr>effects := effects s @ [Console ''Stream error:'' (prop_of ''message'' event)],
                sendError :=
                  (if truthy (prop_of ''message'' event) then prop_of ''message'' event
                   else Str ''Failed to send message. Check API key in Settings.''),
                isLoading := False\<rparr>)
     \<and> (eventType \<notin> Str ` set handled_types \<longrightarrow>
          onEvent eventType event s =
            Inr (s\<lparr>effects := effects s @ [Console ''Unknown event type:'' eventType]\<rparr>))"
  using start_events [OF assms(1), of event] complete_events [OF assms]
    other_events(1,2) [of event s] other_events(3) [OF assms(2,3), of s]
    onEvent_default [of eventType event s]
  by simp

theorem dispatcher_updates_witness:
  "in_progress sending_state
     \<lparr>conv_id = ''c1'', title = ''New Conversation'', messages = [0, 1], other_props = []\<rparr>
     assistantMessage
     \<lparr>loading_stage1 = False, loading_stage2 = False, loading_stage3 = False\<rparr>
   \<and> onEvent (Str ''stage2_complete'') ranking_event sending_state =
       Inr (sending_state
              \<lparr>heap :=
                 [userMessage ''hi'',
                  assistantMessage
                    \<lparr>stage2 := Arr [Obj [(''model'', Str ''m1''),
                                          (''ranking'', Str ''1. Response A'')]],
                     metadata := Obj [(''label_to_model'', Obj [(''Response A'', Str ''m1'')]),
                                      (''aggregate_rankings'', Arr [])],
                     loading := Some \<lparr>loading_stage1 = False, loading_stage2 = False,
                                      loading_stage3 = False\<rparr>\<rparr>]\<rparr>)
   \<and> onEvent (Str ''error'') (Obj [(''type'', Str ''error''), (''message'', Str ''No API key'')])
         sending_state =
       Inr (sending_state
              \<lparr>effects := [Console ''Stream error:'' (Str ''No API key'')],
               sendError := Str ''No API key'', isLoading := False\<rparr>)
   \<and> (Str ''heartbeat'' \<in> Str ` set handled_types) = False"
  using dispatcher_updates
          [of sending_state
              "\<lparr>conv_id = ''c1'', title = ''New Conversation'', messages = [0, 1],
                other_props = []\<rparr>"
              assistantMessage
              "\<lparr>loading_stage1 = False, loading_stage2 = False, loading_stage3 = False\<rparr>"
              ranking_event "Str ''heartbeat''"]
        dispatcher_updates
          [of sending_state
              "\<lparr>conv_id = ''c1'', title = ''New Conversation'', messages = [0, 1],
                other_props = []\<rparr>"
              assistantMessage
              "\<lparr>loading_stage1 = False, loading_stage2 = False, loading_stage3 = False\<rparr>"
              "Obj [(''type'', Str ''error''), (''message'', Str ''No API key'')]"
              "Str ''heartbeat''"]
  by (simp add: in_progress_def sending_state_def assistantMessage_def userMessage_def
        ranking_event_def store_last_def prop_of_def handled_types_def)

text \<open>
  C2 as stated fails on an \<^verbatim>\<open>error\<close> event whose \<^verbatim>\<open>message\<close> is empty: the send error is
  then the fixed text of the \<^verbatim>\<open>||\<close>, not \<^verbatim>\<open>event.message\<close>.
\<close>

theorem dispatcher_updates_counterexample:
  "prop_of ''message'' (Obj [(''type'', Str ''error''), (''message'', Str [])]) = Str []
   \<and> onEvent (Str ''error'') (Obj [(''type'', Str ''error''), (''message'', Str [])]) init_app =
       Inr (init_app
              \<lparr>effects := [Console ''Stream error:'' (Str [])],
               sendError := Str ''Failed to send message. Check API key in Settings.'',
               isLoading := False\<rparr>)
   \<and> Str ''Failed to send message. Check API key in Settings.'' \<noteq> Str []"
  by (simp add: onEvent_def bind_err_def js_or_def prop_of_def init_app_def)

text \<open>
  C7. When the last message of the open conversation is the assistant message in
  progress, each of the six stage events succeeds and changes one thing, that message
  object: the conversation object (its id, title, list of messages and other
  properties) is the same, every other object of the store is the same, in particular
  every earlier message of the conversation (no message object occurs twice in it), and
  \<^verbatim>\<open>isLoading\<close>, the send error and the conversation list are the same. On
  \<^verbatim>\<open>stage2_complete\<close> the message gets \<^verbatim>\<open>event.data\<close> as \<^verbatim>\<open>stage2\<close> and
  \<^verbatim>\<open>event.metadata\<close> as \<^verbatim>\<open>metadata\<close>, and its stage 2 flag is cleared.
\<close>

theorem stage_events_frame:
  assumes "in_progress s prev m l" and "event \<noteq> Null" and "event \<noteq> Undefined"
    and "eventType \<in> Str ` set stage_types"
  shows "\<exists>s'. onEvent eventType event s = Inr s'
           \<and> currentConversation s' = Some prev
           \<and> length (heap s') = length (heap s)
           \<and> (\<forall>a. a \<noteq> last (messages prev) \<longrightarrow> heap s' ! a = heap s ! a)
           \<and> (distinct (messages prev) \<longrightarrow>
                 (\<forall>a \<in> set (butlast (messages prev)). heap s' ! a = heap s ! a))
           \<and> role (heap s' ! last (messages prev)) = role m
           \<and> content (heap s' ! last (messages prev)) = content m
           \<and> conversations s' = conversations s
           \<and> currentConversationId s' = currentConversationId s
           \<and> isLoading s' = isLoading s
           \<and> sendError s' = sendError s
           \<and> effects s' = effects s
           \<and> (eventType = Str ''stage2_complete'' \<longrightarrow>
                 heap s' ! last (messages prev) =
                   m\<lparr>stage2 := prop_of ''data'' event, metadata := prop_of ''metadata'' event,
                      loading := Some (l\<lparr>loading_stage2 := False\<rparr>)\<rparr>)"
proof -
  from stage_event_store [OF assms]
  obtain m' l' where step: "onEvent eventType event s = Inr (store_last s prev m')"
    and m': "role m' = role m" "content m' = content m"
      "eventType = Str ''stage2_complete'' \<longrightarrow>
         m' = m\<lparr>stage2 := prop_of ''data'' event, metadata := prop_of ''metadata'' event,
                 loading := Some (l\<lparr>loading_stage2 := False\<rparr>)\<rparr>"
    by blast
  have cur: "currentConversation s = Some prev" and ne: "messages prev \<noteq> []"
    and inside: "last (messages prev) < length (heap s)"
    using assms(1) by (simp_all add: in_progress_def)
  have earlier: "distinct (messages prev) \<longrightarrow>
      (\<forall>a \<in> set (butlast (messages prev)).
         (heap s)[last (messages prev) := m'] ! a = heap s ! a)"
  proof (intro impI ballI)
    fix a
    assume "distinct (messages prev)" and "a \<in> set (butlast (messages prev))"
    then have "a \<noteq> last (messages prev)"
      using distinct_last_not_earlier [OF _ ne] by blast
    then show "(heap s)[last (messages prev) := m'] ! a = heap s ! a"
      by simp
  qed
  show ?thesis
    unfolding step using cur inside m' earlier
    by (simp add: store_last_def)
qed

theorem stage_events_frame_witness:
  "in_progress sending_state
     \<lparr>conv_id = ''c1'', title = ''New Conversation'', messages = [0, 1], other_props = []\<rparr>
     assistantMessage
     \<lparr>loading_stage1 = False, loading_stage2 = False, loading_stage3 = False\<rparr>
   \<and> (Str ''stage2_complete'' \<in> Str ` set stage_types)
   \<and> distinct [0 :: nat, 1]
   \<and> (\<exists>s'. onEvent (Str ''stage2_complete'') ranking_event sending_state = Inr s'
          \<and> currentConversation s' = currentConversation sending_state
          \<and> heap s' ! 0 = userMessage ''hi''
          \<and> stage2 (heap s' ! 1) =
              Arr [Obj [(''model'', Str ''m1''), (''ranking'', Str ''1. Response A'')]]
          \<and> metadata (heap s' ! 1) =
              Obj [(''label_to_model'', Obj [(''Response A'', Str ''m1'')]),
                   (''aggregate_rankings'', Arr [])])"
  using stage_events_frame
          [of sending_state
              "\<lparr>conv_id = ''c1'', title = ''New Conversation'', messages = [0, 1],
                other_props = []\<rparr>"
              assistantMessage
              "\<lparr>loading_stage1 = False, loading_stage2 = False, loading_stage3 = False\<rparr>"
              ranking_event "Str ''stage2_complete''"]
  by (auto simp: in_progress_def sending_state_def assistantMessage_def userMessage_def
        ranking_event_def prop_of_def stage_types_def)



section \<open>The deliberation engine: proofs\<close>

lemma step_phases:
  assumes "step q out q'"
  shows "sorted (map phase out)
         \<and> (\<forall>e \<in> set out. reached q \<le> phase e \<and> phase e \<le> reached q')
         \<and> reached q \<le> reached q'"
  using assms by (induction rule: step.induct) (auto simp: running_def)

lemma run_phases:
  assumes "run q evs"
  shows "sorted (map phase evs) \<and> (\<forall>e \<in> set evs. phase e \<le> reached q)"
  using assms
proof (induction rule: run.induct)
  case idle
  show ?case by simp
next
  case (next_step q evs out q')
  from step_phases [OF next_step.hyps(2)]
  have "sorted (map phase out)"
    and "\<forall>e \<in> set out. reached q \<le> phase e \<and> phase e \<le> reached q'"
    and "reached q \<le> reached q'"
    by simp_all
  with next_step.IH show ?case
    by (fastforce simp: sorted_append)
qed

lemma sorted_precedes:
  assumes "sorted (map phase evs)" and "\<And>x y. P x \<Longrightarrow> Q y \<Longrightarrow> phase x < phase y"
  shows "precedes P Q evs"
  unfolding precedes_def
proof (intro allI impI)
  fix i j
  assume i: "i < length evs" and j: "j < length evs" and pq: "P (evs ! i) \<and> Q (evs ! j)"
  show "i < j"
  proof (rule ccontr)
    assume "\<not> i < j"
    then have "j \<le> i" by simp
    then have "map phase evs ! j \<le> map phase evs ! i"
      using assms(1) i by (simp add: sorted_iff_nth_mono)
    then have "phase (evs ! j) \<le> phase (evs ! i)"
      using i j by simp
    moreover have "phase (evs ! i) < phase (evs ! j)"
      using assms(2) pq by blast
    ultimately show False by simp
  qed
qed

lemma sorted_prefix:
  "prefix observed evs \<Longrightarrow> sorted (map phase evs) \<Longrightarrow> sorted (map phase observed)"
  by (auto simp: prefix_def sorted_append)

lemma full_run:
  "run Completed
     [Stage1Start, Stage1Complete, Stage2Start, Stage2Complete, Stage3Start,
      Stage3Complete, TitleComplete, Complete]"
  using run.next_step
          [OF run.next_step
                [OF run.next_step [OF run.next_step [OF run.idle step.begin_run] step.stage1_done]
                    step.stage2_done]
              step.stage3_done_titled]
  by simp

text \<open>
  C5, on the session of the specification. In every run, and in every prefix of its
  events that a consumer has seen, each Stage 1 event comes before each Stage 2 event,
  each Stage 2 event before each Stage 3 event, and each Stage 3 event before the
  terminal event.
\<close>

theorem events_monotonic:
  assumes "run q evs" and "prefix observed evs"
  shows "precedes is_stage1 is_stage2 observed
         \<and> precedes is_stage2 is_stage3 observed
         \<and> precedes is_stage3 is_terminal observed"
proof -
  have "sorted (map phase observed)"
    using run_phases [OF assms(1)] sorted_prefix [OF assms(2)] by blast
  then show ?thesis
    by (auto intro!: sorted_precedes
          simp: is_stage1_def is_stage2_def is_stage3_def is_terminal_def)
qed

theorem events_monotonic_witness:
  "run Completed
     [Stage1Start, Stage1Complete, Stage2Start, Stage2Complete, Stage3Start,
      Stage3Complete, TitleComplete, Complete]
   \<and> prefix [Stage1Start, Stage1Complete, Stage2Start]
       [Stage1Start, Stage1Complete, Stage2Start, Stage2Complete, Stage3Start,
        Stage3Complete, TitleComplete, Complete]
   \<and> precedes is_stage1 is_stage2 [Stage1Start, Stage1Complete, Stage2Start]
   \<and> precedes is_stage3 is_terminal
       [Stage1Start, Stage1Complete, Stage2Start, Stage2Complete, Stage3Start,
        Stage3Complete, TitleComplete, Complete]"
  using full_run
    events_monotonic [OF full_run, of "[Stage1Start, Stage1Complete, Stage2Start]"]
    events_monotonic
      [OF full_run,
       of "[Stage1Start, Stage1Complete, Stage2Start, Stage2Complete, Stage3Start,
            Stage3Complete, TitleComplete, Complete]"]
  by simp

lemma map_filter_all_None:
  assumes "\<forall>x \<in> set xs. f x = None"
  shows "List.map_filter f xs = []"
  using assms by (induction xs) (simp_all add: map_filter_simps)

text \<open>
  With no valid ranking every total is 0, so the sort by total and label orders by
  label alone: when the labels follow the stable order, the fallback is what the sort
  gives.
\<close>

lemma borda_order_no_rankings:
  assumes "sorted labels"
  shows "borda_order [] labels = labels"
proof -
  have "sorted (map (\<lambda>l. (- int (total_score [] l), l)) labels)"
    using assms by (induction labels) (auto simp: total_score_def less_eq_prod_def)
  then show ?thesis
    unfolding borda_order_def by (rule sort_key_id_if_sorted)
qed

text \<open>
  C6, on the aggregator of the specification. If the text of every ranking model fails
  to give a valid ranking, Stage 2 still finishes, and its aggregate ranking is the
  list of labels in the stable Stage 1 order.
\<close>

theorem all_rankings_unparseable:
  assumes "\<forall>(model, text) \<in> set outputs. checked parse (map fst assignment) text = None"
  shows "\<exists>out. stage2_aggregator parse assignment outputs = Finished out
           \<and> aggregate_ranking out = map fst assignment
           \<and> label_to_model out = assignment"
proof -
  have "List.map_filter snd
          (map (\<lambda>(model, text). (model, checked parse (map fst assignment) text)) outputs) = []"
    using assms by (intro map_filter_all_None) auto
  then show ?thesis
    by (simp add: stage2_aggregator_def aggregate_def Let_def)
qed

theorem all_rankings_unparseable_witness:
  "checked example_ranking_parse ''AB'' ''I cannot rank these.'' = None
   \<and> checked example_ranking_parse ''AB'' ''B > A'' = Some ''BA''
   \<and> stage2_aggregator example_ranking_parse [(CHR ''A'', ''m1''), (CHR ''B'', ''m2'')]
       [(''m1'', ''I cannot rank these.''), (''m2'', ''A is best'')]
     = Finished
         \<lparr>aggregate_ranking = ''AB'',
          individual_rankings = [(''m1'', None), (''m2'', None)],
          label_to_model = [(CHR ''A'', ''m1''), (CHR ''B'', ''m2'')]\<rparr>"
  using all_rankings_unparseable
          [of "[(''m1'', ''I cannot rank these.''), (''m2'', ''A is best'')]"
              example_ranking_parse "[(CHR ''A'', ''m1''), (CHR ''B'', ''m2'')]"]
  by (simp add: checked_def example_ranking_parse_def valid_ranking_def stage2_aggregator_def
        aggregate_def map_filter_simps insert_commute)

end
